theory Spec2Isabelle
  imports Main "HOL-Library.Sublist"
begin

section \<open>JavaScript string operations used by the chat endpoint\<close>

text \<open>
  Strings are lists of characters. The operations below follow the semantics of the
  JavaScript built-ins that \<^verbatim>\<open>chats-post.ts\<close> calls. Letter case and white space are
  modelled on the ASCII range.
\<close>

text \<open>\<^verbatim>\<open>a || b\<close> on an optional string: the empty string and \<^verbatim>\<open>undefined\<close> are falsy.\<close>

definition orElse :: "string option \<Rightarrow> string \<Rightarrow> string" where
  "orElse x d = (case x of None \<Rightarrow> d | Some s \<Rightarrow> if s = [] then d else s)"

text \<open>\<^verbatim>\<open>a ?? b\<close>: only \<^verbatim>\<open>undefined\<close> and \<^verbatim>\<open>null\<close> select the default.\<close>

definition orNullish :: "string option \<Rightarrow> string \<Rightarrow> string" where
  "orNullish x d = (case x of None \<Rightarrow> d | Some s \<Rightarrow> s)"

definition truthy :: "string option \<Rightarrow> bool" where
  "truthy x = (case x of None \<Rightarrow> False | Some s \<Rightarrow> s \<noteq> [])"

text \<open>\<^verbatim>\<open>s.startsWith(p)\<close>\<close>

fun startsWith :: "string \<Rightarrow> string \<Rightarrow> bool" where
  "startsWith s [] = True"
| "startsWith [] (p # ps) = False"
| "startsWith (c # cs) (p # ps) = (c = p \<and> startsWith cs ps)"

text \<open>\<^verbatim>\<open>s.includes(t)\<close>: \<open>t\<close> occurs in \<open>s\<close> as a contiguous run of characters.\<close>

fun includes_str :: "string \<Rightarrow> string \<Rightarrow> bool" where
  "includes_str [] t = (t = [])"
| "includes_str (c # cs) t = (startsWith (c # cs) t \<or> includes_str cs t)"

text \<open>\<^verbatim>\<open>s.toLowerCase()\<close> on ASCII letters; every other character is kept.\<close>

definition toLowerChar :: "char \<Rightarrow> char" where
  "toLowerChar c =
     (case map_of (zip ''ABCDEFGHIJKLMNOPQRSTUVWXYZ'' ''abcdefghijklmnopqrstuvwxyz'') c of
        None \<Rightarrow> c
      | Some l \<Rightarrow> l)"

definition toLowerCase :: "string \<Rightarrow> string" where
  "toLowerCase s = map toLowerChar s"

text \<open>\<^verbatim>\<open>s.trim()\<close>: white space is removed at both ends.\<close>

definition isWhiteSpace :: "char \<Rightarrow> bool" where
  "isWhiteSpace c =
     (c = CHR '' '' \<or> c = CHR 0x09 \<or> c = CHR 0x0A \<or> c = CHR 0x0B \<or> c = CHR 0x0C \<or> c = CHR 0x0D)"

definition trim :: "string \<Rightarrow> string" where
  "trim s = rev (dropWhile isWhiteSpace (rev (dropWhile isWhiteSpace s)))"

text \<open>\<^verbatim>\<open>s.split(sep)\<close> for a separator of one character; the result is never empty.\<close>

fun split :: "char \<Rightarrow> string \<Rightarrow> string list" where
  "split sep [] = [[]]"
| "split sep (c # cs) =
     (if c = sep then [] # split sep cs
      else (case split sep cs of [] \<Rightarrow> [[c]] | p # ps \<Rightarrow> (c # p) # ps))"

text \<open>\<^verbatim>\<open>xs[i]\<close> on an array of strings, \<open>None\<close> standing for \<^verbatim>\<open>undefined\<close>.\<close>

fun at_index :: "'a list \<Rightarrow> nat \<Rightarrow> 'a option" where
  "at_index [] i = None"
| "at_index (x # xs) 0 = Some x"
| "at_index (x # xs) (Suc i) = at_index xs i"

text \<open>\<^verbatim>\<open>xs.at(-1)\<close>\<close>

definition at_last :: "'a list \<Rightarrow> 'a option" where
  "at_last xs = (if xs = [] then None else Some (last xs))"

section \<open>Data of the chat endpoint\<close>

datatype error =
    MissingAuthorizationHeader
  | OboFlowFailed
  | ClientCredFlowFailed
  | TypeError
  | SyntaxError
  | ExternalFailure string

text \<open>The part of \<^verbatim>\<open>process.env\<close> that the handler reads.\<close>

record env =
  AZURE_AD_API_ID :: "string option"
  AZURE_AD_GRAPH_SCOPE :: "string option"
  PURVIEW_ACCEPTED_ACCESS_RIGHTS :: "string option"

text \<open>
  One entry of the \<^verbatim>\<open>value\<close> array of a protection-scope response. \<open>activities\<close> is
  \<open>None\<close> when the field is not a string, \<open>executionMode\<close> is \<open>None\<close> when the field is
  \<^verbatim>\<open>undefined\<close>, and \<open>locations\<close> lists \<^verbatim>\<open>location?.value\<close> of every element (the empty
  list when the field is not an array).
\<close>

record scope_entry =
  activities :: "string option"
  executionMode :: "string option"
  locations :: "string option list"

type_synonym activity_map = "string \<rightharpoonup> string option"

section \<open>\<^verbatim>\<open>processProtectionScopeApiResponse\<close>\<close>

definition activitiesList :: "scope_entry \<Rightarrow> string list" where
  "activitiesList entry =
     (case activities entry of
        None \<Rightarrow> []
      | Some wholeActivities \<Rightarrow> map trim (split CHR '','' wholeActivities))"

text \<open>
  The body of the inner loop: the map is written when the activity is new or the entry's
  mode is \<^verbatim>\<open>evaluateInline\<close>, and only then are the entry's locations compared with the
  application id.
\<close>

definition processActivity ::
  "string option \<Rightarrow> scope_entry \<Rightarrow> string \<Rightarrow> activity_map \<times> bool \<Rightarrow> activity_map \<times> bool" where
  "processActivity appId entry activity acc =
     (case acc of (activityExecutionMap, isValidAppId) \<Rightarrow>
        if activityExecutionMap activity = None \<or> executionMode entry = Some ''evaluateInline''
        then (activityExecutionMap(activity \<mapsto> executionMode entry),
              isValidAppId \<or> appId \<in> set (locations entry))
        else (activityExecutionMap, isValidAppId))"

definition processEntry ::
  "string option \<Rightarrow> scope_entry \<Rightarrow> activity_map \<times> bool \<Rightarrow> activity_map \<times> bool" where
  "processEntry appId entry acc = fold (processActivity appId entry) (activitiesList entry) acc"

definition buildActivityExecutionMap ::
  "string option \<Rightarrow> scope_entry list \<Rightarrow> activity_map \<times> bool" where
  "buildActivityExecutionMap appId entries = fold (processEntry appId) entries (Map.empty, False)"

text \<open>\<^verbatim>\<open>activityExecutionMap.get(name) || 'default'\<close>\<close>

definition executionModeOf :: "activity_map \<Rightarrow> string \<Rightarrow> string" where
  "executionModeOf m name = (case m name of None \<Rightarrow> ''default'' | Some v \<Rightarrow> orElse v ''default'')"

record scope_result =
  sr_activityExecutionMap :: activity_map
  sr_uploadTextExecutionMode :: string
  sr_downloadTextExecutionMode :: string

text \<open>
  The argument is \<^verbatim>\<open>apiResponse.value\<close>, \<open>None\<close> when it cannot be iterated: the
  \<^verbatim>\<open>for ... of\<close> loop then throws a \<^verbatim>\<open>TypeError\<close>, the validation before it only logs.
\<close>

definition processProtectionScopeApiResponse ::
  "env \<Rightarrow> scope_entry list option \<Rightarrow> error + scope_result" where
  "processProtectionScopeApiResponse e apiValue =
     (case apiValue of
        None \<Rightarrow> Inl TypeError
      | Some entries \<Rightarrow>
          (let activityExecutionMap = fst (buildActivityExecutionMap (AZURE_AD_API_ID e) entries)
           in Inr \<lparr>sr_activityExecutionMap = activityExecutionMap,
                   sr_uploadTextExecutionMode = executionModeOf activityExecutionMap ''uploadText'',
                   sr_downloadTextExecutionMode = executionModeOf activityExecutionMap ''downloadText''\<rparr>))"

text \<open>The entries of a response that name a given activity, in the order of the response.\<close>

definition entriesFor :: "string \<Rightarrow> scope_entry list \<Rightarrow> scope_entry list" where
  "entriesFor activity entries = filter (\<lambda>entry. activity \<in> set (activitiesList entry)) entries"


section \<open>Label filter\<close>

record label_metadata =
  label_id :: "string option"
  label_name :: "string option"

text \<open>A retrieved document; the fields of \<^verbatim>\<open>metadata\<close> are optional.\<close>

record document =
  pageContent :: string
  source :: "string option"
  doc_label_metadata :: "label_metadata option"

definition documentLabelIdOf :: "document \<Rightarrow> string option" where
  "documentLabelIdOf doc = (case doc_label_metadata doc of None \<Rightarrow> None | Some lm \<Rightarrow> label_id lm)"

definition documentLabelNameOf :: "document \<Rightarrow> string option" where
  "documentLabelNameOf doc = (case doc_label_metadata doc of None \<Rightarrow> None | Some lm \<Rightarrow> label_name lm)"

text \<open>
  The answer of the label lookup, as far as the handler reads it: the \<^verbatim>\<open>value\<close> array,
  and for each of its elements \<^verbatim>\<open>rights?.value\<close>, which may be a string or anything else.
\<close>

datatype json_value = JString string | JOther

record graph_label =
  rights_value :: "json_value option"

type_synonym label_info = "graph_label list option"

text \<open>\<^verbatim>\<open>labelInfo?.value?.[0]?.rights?.value\<close>\<close>

definition rightsValueRaw :: "label_info \<Rightarrow> json_value option" where
  "rightsValueRaw labelInfo =
     (case labelInfo of
        None \<Rightarrow> None
      | Some labels \<Rightarrow> (case at_index labels 0 of None \<Rightarrow> None | Some l \<Rightarrow> rights_value l))"

text \<open>\<^verbatim>\<open>typeof rightsValueRaw === 'string' ? rightsValueRaw.toLowerCase() : ''\<close>\<close>

definition rightsValueOf :: "json_value option \<Rightarrow> string" where
  "rightsValueOf raw = (case raw of Some (JString v) \<Rightarrow> toLowerCase v | _ \<Rightarrow> [])"

definition acceptedAccessRightOf :: "env \<Rightarrow> string" where
  "acceptedAccessRightOf e = toLowerCase (orNullish (PURVIEW_ACCEPTED_ACCESS_RIGHTS e) ''default'')"

text \<open>
  One element of \<^verbatim>\<open>labelTasks\<close>: \<open>None\<close> is the \<^verbatim>\<open>null\<close> that the callback returns. The
  lookup is a parameter; \<open>Inl\<close> is a rejected promise, caught inside the callback.
\<close>

definition labelTask ::
  "(string \<Rightarrow> error + label_info) \<Rightarrow> string \<Rightarrow> document \<Rightarrow> document option" where
  "labelTask lookup acceptedAccessRight doc =
     (case documentLabelIdOf doc of
        None \<Rightarrow> None
      | Some documentLabelId \<Rightarrow>
          if documentLabelId = [] then None
          else (case lookup documentLabelId of
                  Inl err \<Rightarrow> None
                | Inr labelInfo \<Rightarrow>
                    if includes_str acceptedAccessRight (rightsValueOf (rightsValueRaw labelInfo))
                    then Some doc else None))"

text \<open>\<^verbatim>\<open>(await Promise.all(labelTasks)).filter((d) => d !== null)\<close>\<close>

definition labelFilter ::
  "(string \<Rightarrow> error + label_info) \<Rightarrow> string \<Rightarrow> document list \<Rightarrow> document list" where
  "labelFilter lookup acceptedAccessRight retrievedDocuments =
     List.map_filter (\<lambda>d. d) (map (labelTask lookup acceptedAccessRight) retrievedDocuments)"

text \<open>The label ids for which a lookup is started, in the order of the documents.\<close>

definition lookedUpLabelIds :: "document list \<Rightarrow> string list" where
  "lookedUpLabelIds retrievedDocuments =
     filter (\<lambda>l. l \<noteq> []) (List.map_filter documentLabelIdOf retrievedDocuments)"

section \<open>Citation rewriting\<close>

text \<open>
  \<^verbatim>\<open>GetSubstitution\<close> of the language standard for a string pattern, which has no
  captures: in the replacement text \<^verbatim>\<open>$$\<close> stands for a dollar sign, \<^verbatim>\<open>$&\<close> for the
  matched text, \<^verbatim>\<open>$`\<close> for the text before the match and \<^verbatim>\<open>$'\<close> for the text after it;
  any other dollar sign is copied.
\<close>

fun getSubstitution :: "string \<Rightarrow> string \<Rightarrow> string \<Rightarrow> string \<Rightarrow> string" where
  "getSubstitution matched preceding following [] = []"
| "getSubstitution matched preceding following [c] = [c]"
| "getSubstitution matched preceding following (c # d # ds) =
     (if c = CHR ''$'' then
        (if d = CHR ''$'' then CHR ''$'' # getSubstitution matched preceding following ds
         else if d = CHR ''&'' then matched @ getSubstitution matched preceding following ds
         else if d = CHR 0x60 then preceding @ getSubstitution matched preceding following ds
         else if d = CHR 0x27 then following @ getSubstitution matched preceding following ds
         else c # getSubstitution matched preceding following (d # ds))
      else c # getSubstitution matched preceding following (d # ds))"

text \<open>
  \<^verbatim>\<open>str.replaceAll(searchValue, replaceValue)\<close> with two strings. The occurrences are found
  from left to right and do not overlap; \<open>preceding\<close> is the part of the original text already
  passed.
\<close>

function replaceAll_from :: "string \<Rightarrow> string \<Rightarrow> string \<Rightarrow> string \<Rightarrow> string" where
  "replaceAll_from searchValue replaceValue preceding [] = []"
| "replaceAll_from searchValue replaceValue preceding (c # cs) =
     (if searchValue \<noteq> [] \<and> startsWith (c # cs) searchValue
      then getSubstitution searchValue preceding (drop (length searchValue) (c # cs)) replaceValue
           @ replaceAll_from searchValue replaceValue (preceding @ searchValue)
               (drop (length searchValue) (c # cs))
      else c # replaceAll_from searchValue replaceValue (preceding @ [c]) cs)"
  by pat_completeness auto
termination
  by (relation "measure (\<lambda>(searchValue, replaceValue, preceding, rest). length rest)") auto

text \<open>An empty pattern matches before every character and at the end.\<close>

fun replaceAll_empty :: "string \<Rightarrow> string \<Rightarrow> string \<Rightarrow> string" where
  "replaceAll_empty replaceValue preceding [] = getSubstitution [] preceding [] replaceValue"
| "replaceAll_empty replaceValue preceding (c # cs) =
     getSubstitution [] preceding (c # cs) replaceValue
     @ c # replaceAll_empty replaceValue (preceding @ [c]) cs"

definition replaceAll :: "string \<Rightarrow> string \<Rightarrow> string \<Rightarrow> string" where
  "replaceAll str searchValue replaceValue =
     (if searchValue = [] then replaceAll_empty replaceValue [] str
      else replaceAll_from searchValue replaceValue [] str)"

text \<open>A template literal prints a missing value as \<^verbatim>\<open>undefined\<close>.\<close>

definition templateString :: "string option \<Rightarrow> string" where
  "templateString x = orNullish x ''undefined''"

definition bareReference :: "string \<Rightarrow> string" where
  "bareReference filename = ''['' @ filename @ '']''"

definition formattedReference :: "string \<Rightarrow> string \<Rightarrow> string" where
  "formattedReference filename labelName = ''['' @ filename @ '' (Label: '' @ labelName @ '')]''"

definition filenameOf :: "document \<Rightarrow> string" where
  "filenameOf doc = templateString (source doc)"

definition labelNameOf :: "document \<Rightarrow> string" where
  "labelNameOf doc = orElse (documentLabelNameOf doc) ''Unknown''"

text \<open>The body of the loop over the retrieved documents, and the loop.\<close>

definition rewriteCitation :: "document \<Rightarrow> string \<Rightarrow> string" where
  "rewriteCitation doc processedLlmResponse =
     replaceAll processedLlmResponse (bareReference (filenameOf doc))
       (formattedReference (filenameOf doc) (labelNameOf doc))"

definition rewriteCitations :: "document list \<Rightarrow> string \<Rightarrow> string" where
  "rewriteCitations retrievedDocuments llmResponse = fold rewriteCitation retrievedDocuments llmResponse"

section \<open>Responses\<close>

text \<open>
  The three constructors stand for the helpers \<^verbatim>\<open>badRequest\<close>, \<^verbatim>\<open>serviceUnavailable\<close> and
  \<^verbatim>\<open>data\<close> of \<^verbatim>\<open>http-response.js\<close>, the responses with the statuses 400 and 503 and the
  streamed response; the body of a data response is the list of chunks that its stream
  yields.
\<close>

datatype response =
    BadRequest string
  | ServiceUnavailable string
  | Data "string list" "(string \<times> string) list"

definition ndjsonHeaders :: "(string \<times> string) list" where
  "ndjsonHeaders = [(''Content-Type'', ''application/x-ndjson''), (''Transfer-Encoding'', ''chunked'')]"

definition blockMessage :: string where
  "blockMessage = ''This action has been blocked due to the security policies enforced by your organization.''"

text \<open>\<^verbatim>\<open>JSON.stringify\<close> of a string: the quoting rules of the language standard.\<close>

definition hexDigit :: "nat \<Rightarrow> char" where
  "hexDigit n = ''0123456789abcdef'' ! (n mod 16)"

definition quoteJSONChar :: "char \<Rightarrow> string" where
  "quoteJSONChar c =
     (if c = CHR 0x08 then [CHR 0x5C, CHR ''b'']
      else if c = CHR 0x09 then [CHR 0x5C, CHR ''t'']
      else if c = CHR 0x0A then [CHR 0x5C, CHR ''n'']
      else if c = CHR 0x0C then [CHR 0x5C, CHR ''f'']
      else if c = CHR 0x0D then [CHR 0x5C, CHR ''r'']
      else if c = CHR 0x22 then [CHR 0x5C, CHR 0x22]
      else if c = CHR 0x5C then [CHR 0x5C, CHR 0x5C]
      else if (of_char c :: nat) < 32
      then [CHR 0x5C, CHR ''u'', CHR ''0'', CHR ''0'',
            hexDigit ((of_char c :: nat) div 16), hexDigit (of_char c :: nat)]
      else [c])"

definition quoteJSONString :: "string \<Rightarrow> string" where
  "quoteJSONString s = CHR 0x22 # concat (map quoteJSONChar s) @ [CHR 0x22]"

text \<open>
  \<^verbatim>\<open>JSON.stringify\<close> of a chunk
  \<^verbatim>\<open>{ delta: { content, role: 'assistant' }, context: { sessionId } }\<close>.
\<close>

definition stringifyDelta :: "string \<Rightarrow> string \<Rightarrow> string" where
  "stringifyDelta contentText sessionId =
     ''{'' @ quoteJSONString ''delta'' @ '':{''
       @ quoteJSONString ''content'' @ '':'' @ quoteJSONString contentText @ '',''
       @ quoteJSONString ''role'' @ '':'' @ quoteJSONString ''assistant'' @ ''},''
       @ quoteJSONString ''context'' @ '':{''
       @ quoteJSONString ''sessionId'' @ '':'' @ quoteJSONString sessionId @ ''}}''"

text \<open>The chunks that the generator \<^verbatim>\<open>createJsonStreamForBlock\<close> yields.\<close>

definition createJsonStreamForBlock :: "string \<Rightarrow> string \<Rightarrow> string list" where
  "createJsonStreamForBlock sessionId message = [stringifyDelta message sessionId @ [CHR 0x0A]]"

definition blockResponse :: "string \<Rightarrow> response" where
  "blockResponse sessionId = Data (createJsonStreamForBlock sessionId blockMessage) ndjsonHeaders"

section \<open>Requests, collaborators and process-wide state\<close>

record message =
  content :: "string option"
  role :: "string option"

text \<open>
  The parsed request body: \<open>messages\<close> is \<open>None\<close> when the field is absent, the other two
  fields are \<^verbatim>\<open>context?.sessionId\<close> and \<^verbatim>\<open>context?.userId\<close>.
\<close>

record request_body =
  messages :: "message list option"
  context_sessionId :: "string option"
  context_userId :: "string option"

text \<open>
  What the handler reads of a request: the \<^verbatim>\<open>Authorization\<close> header, the user id carried by
  the \<^verbatim>\<open>x-ms-client-principal\<close> header (\<open>None\<close> when the header is absent, cannot be parsed or
  has no user id), the \<^verbatim>\<open>userId\<close> query parameter, and the result of \<^verbatim>\<open>request.json()\<close>
  (\<open>None\<close> when it throws).
\<close>

record http_request =
  authorization :: "string option"
  client_principal_userId :: "string option"
  query_userId :: "string option"
  json_body :: "request_body option"

record auth_result =
  ar_accessToken :: string
  ar_tenantId :: string
  ar_username :: "string option"

record purview_tokens =
  oboToken :: string
  userName :: string
  appToken :: string

record scope_api_response =
  scope_value :: "scope_entry list option"
  scope_etag :: "string option"

text \<open>The arguments of \<^verbatim>\<open>constructProcessContentRequestBody\<close>, which make up the request body.\<close>

record process_content_request =
  pc_text :: string
  pc_name :: string
  pc_sequence :: nat
  pc_sessionId :: string
  pc_activity :: string
  pc_appId :: string

text \<open>
  The parsed body of a content-evaluation response, as far as it is read:
  \<^verbatim>\<open>protectionScopeState\<close> and \<^verbatim>\<open>policyActions?.[0]?.action\<close>.
\<close>

record process_content_response =
  protectionScopeState :: "string option"
  policyAction :: "string option"

record enqueue_request =
  eq_accessToken :: string
  eq_etag :: string
  eq_uploadTextExecutionMode :: string
  eq_downloadTextExecutionMode :: string
  eq_question :: string
  eq_response :: string
  eq_sessionId :: string
  eq_sequence :: nat

text \<open>
  The collaborators of one request. Each is a function from the arguments of the call to
  its outcome, \<open>Inl\<close> for a call that throws. For the content evaluation the outcome also
  is \<open>Inl\<close> when the body of the answer cannot be parsed.
\<close>

record world =
  uuidv4 :: string
  acquireTokenOnBehalfOf :: "string \<Rightarrow> string list \<Rightarrow> error + auth_result option"
  acquireTokenByClientCredential :: "string list \<Rightarrow> string \<Rightarrow> error + auth_result option"
  invokeProtectionScopeApi :: "string \<Rightarrow> error + scope_api_response"
  invokeProcessContentApi ::
    "string \<Rightarrow> string \<Rightarrow> process_content_request \<Rightarrow> error + process_content_response"
  retrieverInvoke :: "string \<Rightarrow> error + document list"
  getLabelInfo :: "string \<Rightarrow> string \<Rightarrow> string \<Rightarrow> error + label_info"
  ragChainStream :: "string \<Rightarrow> document list \<Rightarrow> string \<Rightarrow> error + string"
  getContextTitle :: "string \<Rightarrow> string \<Rightarrow> error + string option"
  titleModelInvoke :: "string \<Rightarrow> error + string"
  enqueueOfflinePurviewTasksAsync :: "enqueue_request \<Rightarrow> error + string"

text \<open>The calls that leave the process, in the order in which the handler starts them.\<close>

datatype event =
    CallAcquireTokenOnBehalfOf string
  | CallAcquireTokenByClientCredential string
  | CallProtectionScopeApi
  | CallProcessContentApi string process_content_request
  | CallRetriever string
  | CallGetLabelInfo string
  | CallChatModel "document list"
  | CallGetContext
  | CallTitleModel
  | CallSetContext string
  | CallEnqueueOffline enqueue_request

record protection_data =
  pd_etag :: string
  pd_activityExecutionMap :: activity_map

text \<open>The two module-level maps.\<close>

record state =
  sessionSequenceMap :: "string \<rightharpoonup> nat"
  sessionProtectionDataMap :: "string \<rightharpoonup> protection_data"

definition initialState :: state where
  "initialState = \<lparr>sessionSequenceMap = Map.empty, sessionProtectionDataMap = Map.empty\<rparr>"

section \<open>Control flow of the handler\<close>

text \<open>
  A part of the handler either throws, returns the response of the request, or goes on
  with a value. It also yields the state and the calls it made.
\<close>

datatype 'a flow = Throw error | Return response | Continue 'a

type_synonym 'a step = "'a flow \<times> state \<times> event list"

definition andThen :: "'a step \<Rightarrow> ('a \<Rightarrow> state \<Rightarrow> 'b step) \<Rightarrow> 'b step" where
  "andThen m f =
     (case m of
        (Throw err, st, trace) \<Rightarrow> (Throw err, st, trace)
      | (Return r, st, trace) \<Rightarrow> (Return r, st, trace)
      | (Continue x, st, trace) \<Rightarrow>
          (case f x st of (result, st', trace') \<Rightarrow> (result, st', trace @ trace')))"

section \<open>Request validation\<close>

text \<open>\<^verbatim>\<open>getUserId\<close> of \<^verbatim>\<open>security.ts\<close>\<close>

definition getUserId :: "http_request \<Rightarrow> request_body \<Rightarrow> string option" where
  "getUserId request body =
     (case client_principal_userId request of
        Some userId \<Rightarrow> Some userId
      | None \<Rightarrow> (case context_userId body of Some userId \<Rightarrow> Some userId | None \<Rightarrow> query_userId request))"

record parsed_request =
  p_userId :: string
  p_sessionId :: string
  p_question :: string

text \<open>
  Lines 211 to 220 of \<^verbatim>\<open>chats-post.ts\<close>. Reading \<^verbatim>\<open>messages.at(-1)!.content\<close> throws a
  \<^verbatim>\<open>TypeError\<close> when \<open>messages\<close> is absent or empty; this happens before the validity test.
\<close>

definition parseRequest :: "world \<Rightarrow> http_request \<Rightarrow> parsed_request flow" where
  "parseRequest w request =
     (case json_body request of
        None \<Rightarrow> Throw SyntaxError
      | Some requestBody \<Rightarrow>
          (let userId = getUserId request requestBody;
               sessionId = orElse (context_sessionId requestBody) (uuidv4 w)
           in case messages requestBody of
                None \<Rightarrow> Throw TypeError
              | Some msgs \<Rightarrow>
                  (case at_last msgs of
                     None \<Rightarrow> Throw TypeError
                   | Some lastMessage \<Rightarrow>
                       (let question = content lastMessage
                        in if msgs = [] \<or> \<not> truthy question \<or> \<not> truthy userId \<or> sessionId = []
                           then Return (BadRequest ''Invalid or missing messages in the request body'')
                           else Continue \<lparr>p_userId = orElse userId [], p_sessionId = sessionId,
                                            p_question = orElse question []\<rparr>))))"

section \<open>Token acquisition\<close>

definition hasAccessToken :: "auth_result option \<Rightarrow> bool" where
  "hasAccessToken response = (case response of None \<Rightarrow> False | Some r \<Rightarrow> ar_accessToken r \<noteq> [])"

text \<open>A token exchange yields no access token: it throws, or its result has none.\<close>

definition noAccessToken :: "error + auth_result option \<Rightarrow> bool" where
  "noAccessToken outcome = (case outcome of Inl err \<Rightarrow> True | Inr response \<Rightarrow> \<not> hasAccessToken response)"

definition getAccessTokensthroughMSAL ::
  "world \<Rightarrow> string \<Rightarrow> string list \<Rightarrow> state \<Rightarrow> purview_tokens step" where
  "getAccessTokensthroughMSAL w userToken scopes st =
     (case acquireTokenOnBehalfOf w userToken scopes of
        Inl err \<Rightarrow> (Throw err, st, [CallAcquireTokenOnBehalfOf userToken])
      | Inr None \<Rightarrow> (Throw OboFlowFailed, st, [CallAcquireTokenOnBehalfOf userToken])
      | Inr (Some response) \<Rightarrow>
          if ar_accessToken response = []
          then (Throw OboFlowFailed, st, [CallAcquireTokenOnBehalfOf userToken])
          else
            (let authority = ''https://login.microsoftonline.com/'' @ ar_tenantId response;
                 calls = [CallAcquireTokenOnBehalfOf userToken,
                          CallAcquireTokenByClientCredential authority]
             in case acquireTokenByClientCredential w [''https://graph.microsoft.com/.default''] authority of
                  Inl err \<Rightarrow> (Throw err, st, calls)
                | Inr appResult \<Rightarrow>
                    if \<not> hasAccessToken appResult then (Throw ClientCredFlowFailed, st, calls)
                    else (Continue \<lparr>oboToken = ar_accessToken response,
                                     userName = orNullish (ar_username response) [],
                                     appToken = (case appResult of None \<Rightarrow> [] | Some r \<Rightarrow> ar_accessToken r)\<rparr>,
                          st, calls)))"

text \<open>
  \<^verbatim>\<open>authorizationHeader.split(' ')[1]\<close>; the header starts with \<^verbatim>\<open>Bearer\<close> and a space
  where this is read, so the second piece exists.
\<close>

definition bearerTokenOf :: "string \<Rightarrow> string" where
  "bearerTokenOf authorizationHeader =
     orNullish (at_index (split CHR '' '' authorizationHeader) 1) []"

definition downstreamApiScopeOf :: "env \<Rightarrow> string list" where
  "downstreamApiScopeOf e =
     map trim (split CHR '' ''
       (orElse (AZURE_AD_GRAPH_SCOPE e) ''https://graph.microsoft.com/.default''))"

definition getPurviewAccessTokens :: "env \<Rightarrow> world \<Rightarrow> http_request \<Rightarrow> state \<Rightarrow> purview_tokens step" where
  "getPurviewAccessTokens e w request st =
     (case authorization request of
        None \<Rightarrow> (Throw MissingAuthorizationHeader, st, [])
      | Some authorizationHeader \<Rightarrow>
          if \<not> startsWith authorizationHeader ''Bearer '' then (Throw MissingAuthorizationHeader, st, [])
          else getAccessTokensthroughMSAL w (bearerTokenOf authorizationHeader)
                 (downstreamApiScopeOf e) st)"

section \<open>Policy scope\<close>

record resolved_scope =
  etagIdentifier :: string
  uploadTextExecutionMode :: string
  downloadTextExecutionMode :: string

text \<open>Lines 238 to 273: the cached entry is used when its etag is not empty.\<close>

definition fetchScope :: "env \<Rightarrow> world \<Rightarrow> string \<Rightarrow> string \<Rightarrow> state \<Rightarrow> resolved_scope step" where
  "fetchScope e w userId accessToken st =
     (case invokeProtectionScopeApi w accessToken of
        Inl err \<Rightarrow> (Throw err, st, [CallProtectionScopeApi])
      | Inr apiResponse \<Rightarrow>
          (let returnedEtag = orElse (scope_etag apiResponse) ''default''
           in case processProtectionScopeApiResponse e (scope_value apiResponse) of
                Inl err \<Rightarrow> (Throw err, st, [CallProtectionScopeApi])
              | Inr r \<Rightarrow>
                  (Continue \<lparr>etagIdentifier = returnedEtag,
                             uploadTextExecutionMode = sr_uploadTextExecutionMode r,
                             downloadTextExecutionMode = sr_downloadTextExecutionMode r\<rparr>,
                   st\<lparr>sessionProtectionDataMap :=
                        (sessionProtectionDataMap st)(userId \<mapsto>
                           \<lparr>pd_etag = returnedEtag,
                            pd_activityExecutionMap = sr_activityExecutionMap r\<rparr>)\<rparr>,
                   [CallProtectionScopeApi])))"

definition resolveScope :: "env \<Rightarrow> world \<Rightarrow> string \<Rightarrow> string \<Rightarrow> state \<Rightarrow> resolved_scope step" where
  "resolveScope e w userId accessToken st =
     (case sessionProtectionDataMap st userId of
        None \<Rightarrow> fetchScope e w userId accessToken st
      | Some storedSessionData \<Rightarrow>
          if pd_etag storedSessionData = [] then fetchScope e w userId accessToken st
          else (Continue \<lparr>etagIdentifier = pd_etag storedSessionData,
                           uploadTextExecutionMode =
                             executionModeOf (pd_activityExecutionMap storedSessionData) ''uploadText'',
                           downloadTextExecutionMode =
                             executionModeOf (pd_activityExecutionMap storedSessionData) ''downloadText''\<rparr>,
                st, []))"

section \<open>Inline content evaluation\<close>

definition constructProcessContentRequestBody ::
  "string \<Rightarrow> string \<Rightarrow> nat \<Rightarrow> string \<Rightarrow> string \<Rightarrow> string \<Rightarrow> process_content_request" where
  "constructProcessContentRequestBody text name sequence sessionId activity appId =
     \<lparr>pc_text = text, pc_name = name, pc_sequence = sequence, pc_sessionId = sessionId,
      pc_activity = activity, pc_appId = appId\<rparr>"

text \<open>
  Lines 275 to 329 and lines 462 to 520 have the same shape: when the mode of the activity
  is \<^verbatim>\<open>evaluateInline\<close> the text is evaluated and the sequence number goes up by one; on
  \<^verbatim>\<open>restrictAccess\<close> the number is stored and the block response is returned. The value
  passed on is the new \<open>currentSequence\<close>.
\<close>

definition evaluateInline ::
  "env \<Rightarrow> world \<Rightarrow> string \<Rightarrow> string \<Rightarrow> string \<Rightarrow> string \<Rightarrow> string \<Rightarrow> string \<Rightarrow> nat \<Rightarrow> state \<Rightarrow> nat step" where
  "evaluateInline e w activity executionModeValue accessToken etag sessionId text currentSequence st =
     (if executionModeValue = ''evaluateInline'' then
        (let processContentRequestBody =
               constructProcessContentRequestBody text ''BuildDemo-P4AI'' currentSequence sessionId
                 activity (orElse (AZURE_AD_API_ID e) [])
         in case invokeProcessContentApi w accessToken etag processContentRequestBody of
              Inl err \<Rightarrow> (Throw err, st, [CallProcessContentApi etag processContentRequestBody])
            | Inr processContentJSONResponse \<Rightarrow>
                (let actionMode = orElse (policyAction processContentJSONResponse) ''default''
                 in if actionMode = ''restrictAccess''
                    then (Return (blockResponse sessionId),
                          st\<lparr>sessionSequenceMap :=
                               (sessionSequenceMap st)(sessionId \<mapsto> currentSequence + 1)\<rparr>,
                          [CallProcessContentApi etag processContentRequestBody])
                    else (Continue (currentSequence + 1), st,
                          [CallProcessContentApi etag processContentRequestBody])))
      else (Continue currentSequence, st, []))"

section \<open>Retrieval, label filter, answer and citation rewriting\<close>

text \<open>
  Lines 331 to 460. Setting up the models, the store and the chat history is part of the
  retrieval call; the label lookups are started in the order of the documents. The value
  passed on is \<open>processedLlmResponse\<close>.
\<close>

definition answering ::
  "env \<Rightarrow> world \<Rightarrow> purview_tokens \<Rightarrow> parsed_request \<Rightarrow> state \<Rightarrow> string step" where
  "answering e w tokens p st =
     (case retrieverInvoke w (p_question p) of
        Inl err \<Rightarrow> (Throw err, st, [CallRetriever (p_question p)])
      | Inr retrievedDocuments \<Rightarrow>
          (let filteredDocuments =
                 labelFilter (getLabelInfo w (appToken tokens) (userName tokens))
                   (acceptedAccessRightOf e) retrievedDocuments;
               calls = CallRetriever (p_question p)
                       # map CallGetLabelInfo (lookedUpLabelIds retrievedDocuments)
                       @ [CallChatModel filteredDocuments]
           in case ragChainStream w (p_question p) filteredDocuments (p_sessionId p) of
                Inl err \<Rightarrow> (Throw err, st, calls)
              | Inr llmResponse \<Rightarrow>
                  (Continue (rewriteCitations retrievedDocuments llmResponse), st, calls)))"

section \<open>Title and offline reporting\<close>

text \<open>Lines 540 to 551.\<close>

definition titleStep :: "world \<Rightarrow> parsed_request \<Rightarrow> state \<Rightarrow> unit step" where
  "titleStep w p st =
     (case getContextTitle w (p_userId p) (p_sessionId p) of
        Inl err \<Rightarrow> (Throw err, st, [CallGetContext])
      | Inr title \<Rightarrow>
          if truthy title then (Continue (), st, [CallGetContext])
          else (case titleModelInvoke w (p_question p) of
                  Inl err \<Rightarrow> (Throw err, st, [CallGetContext, CallTitleModel])
                | Inr t \<Rightarrow> (Continue (), st, [CallGetContext, CallTitleModel, CallSetContext t])))"

text \<open>Lines 553 to 571.\<close>

definition offlineStep ::
  "world \<Rightarrow> purview_tokens \<Rightarrow> resolved_scope \<Rightarrow> parsed_request \<Rightarrow> string \<Rightarrow> nat \<Rightarrow> state \<Rightarrow> unit step" where
  "offlineStep w tokens scope p processedLlmResponse currentSequence st =
     (if downloadTextExecutionMode scope = ''evaluateOffline''
         \<or> uploadTextExecutionMode scope = ''evaluateOffline''
      then
        (let args = \<lparr>eq_accessToken = oboToken tokens, eq_etag = etagIdentifier scope,
                     eq_uploadTextExecutionMode = uploadTextExecutionMode scope,
                     eq_downloadTextExecutionMode = downloadTextExecutionMode scope,
                     eq_question = p_question p, eq_response = processedLlmResponse,
                     eq_sessionId = p_sessionId p, eq_sequence = currentSequence\<rparr>
         in case enqueueOfflinePurviewTasksAsync w args of
              Inl err \<Rightarrow> (Throw err, st, [CallEnqueueOffline args])
            | Inr status \<Rightarrow>
                (Continue (),
                 st\<lparr>sessionSequenceMap :=
                      (sessionSequenceMap st)(p_sessionId p \<mapsto> currentSequence + 2)\<rparr>,
                 [CallEnqueueOffline args]))
      else (Continue (), st, []))"

section \<open>\<^verbatim>\<open>postChats\<close>\<close>

text \<open>\<^verbatim>\<open>sessionSequenceMap.get(sessionId) || 0\<close>\<close>

definition storedSequence :: "state \<Rightarrow> string \<Rightarrow> nat" where
  "storedSequence st sessionId = (case sessionSequenceMap st sessionId of None \<Rightarrow> 0 | Some n \<Rightarrow> n)"

definition answerResponse :: "string \<Rightarrow> string \<Rightarrow> response" where
  "answerResponse sessionId processedLlmResponse =
     Data [stringifyDelta processedLlmResponse sessionId @ [CHR 0x0A]] ndjsonHeaders"

text \<open>The body of the \<^verbatim>\<open>try\<close> block, after validation.\<close>

definition pipeline :: "env \<Rightarrow> world \<Rightarrow> http_request \<Rightarrow> parsed_request \<Rightarrow> state \<Rightarrow> response step" where
  "pipeline e w request p st0 =
     (let sequence0 = storedSequence st0 (p_sessionId p) in
      andThen (getPurviewAccessTokens e w request st0) (\<lambda>tokens st1.
      andThen (resolveScope e w (p_userId p) (oboToken tokens) st1) (\<lambda>scope st2.
      andThen (evaluateInline e w ''uploadText'' (uploadTextExecutionMode scope) (oboToken tokens)
                 (etagIdentifier scope) (p_sessionId p) (p_question p) sequence0 st2) (\<lambda>sequence1 st3.
      andThen (answering e w tokens p st3) (\<lambda>processedLlmResponse st4.
      andThen (evaluateInline e w ''downloadText'' (downloadTextExecutionMode scope) (oboToken tokens)
                 (etagIdentifier scope) (p_sessionId p) processedLlmResponse sequence1 st4) (\<lambda>sequence2 st5.
      andThen (titleStep w p st5) (\<lambda>u st6.
      andThen (offlineStep w tokens scope p processedLlmResponse sequence2 st6) (\<lambda>u st7.
        (Return (answerResponse (p_sessionId p) processedLlmResponse), st7, [])))))))))"

definition serviceUnavailableMessage :: string where
  "serviceUnavailableMessage = ''Service temporarily unavailable. Please try again later.''"

text \<open>The handler: every exception of the \<^verbatim>\<open>try\<close> block becomes the same response.\<close>

definition postChats :: "env \<Rightarrow> world \<Rightarrow> state \<Rightarrow> http_request \<Rightarrow> response \<times> state \<times> event list" where
  "postChats e w st request =
     (case andThen (parseRequest w request, st, []) (pipeline e w request) of
        (Throw err, st', trace) \<Rightarrow> (ServiceUnavailable serviceUnavailableMessage, st', trace)
      | (Return r, st', trace) \<Rightarrow> (r, st', trace)
      | (Continue r, st', trace) \<Rightarrow> (r, st', trace))"

text \<open>
  Requests handled one after the other, each with its own collaborators: every handler
  finishes before the next one starts. Requests that are in flight together are the
  subject of \<open>postChatsAcross\<close> below.
\<close>

fun run :: "env \<Rightarrow> state \<Rightarrow> (world \<times> http_request) list \<Rightarrow> state \<times> (response \<times> event list) list" where
  "run e st [] = (st, [])"
| "run e st ((w, request) # requests) =
     (case postChats e w st request of
        (r, st', trace) \<Rightarrow>
          (case run e st' requests of (st'', outs) \<Rightarrow> (st'', (r, trace) # outs)))"


section \<open>Observations on responses and calls\<close>

text \<open>A request fails when its response comes from \<^verbatim>\<open>badRequest\<close> or \<^verbatim>\<open>serviceUnavailable\<close>.\<close>

fun isFailure :: "response \<Rightarrow> bool" where
  "isFailure (BadRequest m) = True"
| "isFailure (ServiceUnavailable m) = True"
| "isFailure (Data chunks headers) = False"

fun isTokenCall :: "event \<Rightarrow> bool" where
  "isTokenCall (CallAcquireTokenOnBehalfOf t) = True"
| "isTokenCall (CallAcquireTokenByClientCredential a) = True"
| "isTokenCall ev = False"

fun isScopeCall :: "event \<Rightarrow> bool" where
  "isScopeCall CallProtectionScopeApi = True"
| "isScopeCall ev = False"

fun isEvaluationCall :: "event \<Rightarrow> bool" where
  "isEvaluationCall (CallProcessContentApi etag body) = True"
| "isEvaluationCall ev = False"

fun isRetrievalCall :: "event \<Rightarrow> bool" where
  "isRetrievalCall (CallRetriever q) = True"
| "isRetrievalCall ev = False"

fun isModelCall :: "event \<Rightarrow> bool" where
  "isModelCall (CallChatModel docs) = True"
| "isModelCall CallTitleModel = True"
| "isModelCall ev = False"

fun isTitleCall :: "event \<Rightarrow> bool" where
  "isTitleCall CallGetContext = True"
| "isTitleCall CallTitleModel = True"
| "isTitleCall (CallSetContext t) = True"
| "isTitleCall ev = False"

fun isEnqueueCall :: "event \<Rightarrow> bool" where
  "isEnqueueCall (CallEnqueueOffline args) = True"
| "isEnqueueCall ev = False"

text \<open>The sequence numbers and the etags sent with the content evaluations of a trace.\<close>

definition evaluatedSequences :: "event list \<Rightarrow> nat list" where
  "evaluatedSequences trace =
     concat (map (\<lambda>ev. case ev of CallProcessContentApi etag body \<Rightarrow> [pc_sequence body] | _ \<Rightarrow> []) trace)"

definition evaluationEtags :: "event list \<Rightarrow> string list" where
  "evaluationEtags trace =
     concat (map (\<lambda>ev. case ev of CallProcessContentApi etag body \<Rightarrow> [etag] | _ \<Rightarrow> []) trace)"

section \<open>Example inputs\<close>

definition exampleEnv :: env where
  "exampleEnv = \<lparr>AZURE_AD_API_ID = Some ''app'', AZURE_AD_GRAPH_SCOPE = None,
                  PURVIEW_ACCEPTED_ACCESS_RIGHTS = Some ''View,Edit''\<rparr>"

definition exampleEntries :: "scope_entry list" where
  "exampleEntries =
     [\<lparr>activities = Some ''uploadText, downloadText'', executionMode = Some ''evaluateOffline'',
       locations = []\<rparr>,
      \<lparr>activities = Some '' uploadText'', executionMode = Some ''evaluateInline'',
       locations = [Some ''app'']\<rparr>]"

definition inlineUploadEntries :: "scope_entry list" where
  "inlineUploadEntries =
     [\<lparr>activities = Some ''uploadText'', executionMode = Some ''evaluateInline'',
       locations = [Some ''app'']\<rparr>]"

definition inlineDownloadEntries :: "scope_entry list" where
  "inlineDownloadEntries =
     [\<lparr>activities = Some ''uploadText'', executionMode = Some ''evaluateOffline'',
       locations = [Some ''app'']\<rparr>,
      \<lparr>activities = Some ''downloadText'', executionMode = Some ''evaluateInline'',
       locations = [Some ''app'']\<rparr>]"

definition exampleDocument :: document where
  "exampleDocument =
     \<lparr>pageContent = ''text'', source = Some ''doc1.pdf'',
      doc_label_metadata = Some \<lparr>label_id = Some ''L1'', label_name = Some ''General''\<rparr>\<rparr>"

definition unlabelledDocument :: document where
  "unlabelledDocument = \<lparr>pageContent = ''text'', source = Some ''doc2.pdf'', doc_label_metadata = None\<rparr>"

definition exampleAuthResult :: "string \<Rightarrow> auth_result" where
  "exampleAuthResult token = \<lparr>ar_accessToken = token, ar_tenantId = ''t'', ar_username = Some ''user''\<rparr>"

text \<open>
  Collaborators that all succeed: the scope lookup answers with the given entries, and the
  content evaluation answers with the given action for the given activity and allows the
  other.
\<close>

definition exampleWorld :: "scope_entry list \<Rightarrow> string \<Rightarrow> world" where
  "exampleWorld entries restricted =
     \<lparr>uuidv4 = ''uuid'',
      acquireTokenOnBehalfOf = (\<lambda>userToken scopes. Inr (Some (exampleAuthResult ''obo''))),
      acquireTokenByClientCredential = (\<lambda>scopes authority. Inr (Some (exampleAuthResult ''app''))),
      invokeProtectionScopeApi = (\<lambda>accessToken. Inr \<lparr>scope_value = Some entries, scope_etag = Some ''e1''\<rparr>),
      invokeProcessContentApi = (\<lambda>accessToken etag body.
         Inr \<lparr>protectionScopeState = Some ''modified'',
              policyAction = (if pc_activity body = restricted then Some ''restrictAccess'' else None)\<rparr>),
      retrieverInvoke = (\<lambda>question. Inr [exampleDocument]),
      getLabelInfo = (\<lambda>appTok user labelId. Inr (Some [\<lparr>rights_value = Some (JString ''View'')\<rparr>])),
      ragChainStream = (\<lambda>question docs sessionId. Inr ''See [doc1.pdf]''),
      getContextTitle = (\<lambda>userId sessionId. Inr None),
      titleModelInvoke = (\<lambda>question. Inr ''Title''),
      enqueueOfflinePurviewTasksAsync = (\<lambda>args. Inr ''ok'')\<rparr>"

definition exampleBody :: "message list option \<Rightarrow> request_body" where
  "exampleBody msgs = \<lparr>messages = msgs, context_sessionId = Some ''123'', context_userId = None\<rparr>"

definition exampleRequest :: "string option \<Rightarrow> message list option \<Rightarrow> http_request" where
  "exampleRequest header msgs =
     \<lparr>authorization = header, client_principal_userId = None, query_userId = Some ''1'',
      json_body = Some (exampleBody msgs)\<rparr>"

definition exampleMessages :: "message list option" where
  "exampleMessages = Some [\<lparr>content = Some ''Hi'', role = Some ''user''\<rparr>]"

text \<open>Collaborators whose on-behalf-of exchange comes back without a result.\<close>

definition noOboWorld :: world where
  "noOboWorld = (exampleWorld exampleEntries ''none'')\<lparr>acquireTokenOnBehalfOf := (\<lambda>t s. Inr None)\<rparr>"

section \<open>Assertions on the parts of the handler\<close>

text \<open>
  \<open>stepSat V Q R m\<close>: the value that \<open>m\<close> passes on satisfies \<open>V\<close>, the state that it leaves
  satisfies \<open>Q\<close>, and every call that it made satisfies \<open>R\<close>.
\<close>

definition stepSat :: "('a \<Rightarrow> bool) \<Rightarrow> (state \<Rightarrow> bool) \<Rightarrow> (event \<Rightarrow> bool) \<Rightarrow> 'a step \<Rightarrow> bool" where
  "stepSat V Q R m =
     ((case fst m of Continue x \<Rightarrow> V x | _ \<Rightarrow> True)
      \<and> Q (fst (snd m)) \<and> list_all R (snd (snd m)))"


section \<open>Names in citations\<close>

text \<open>
  A name is plain when it has no square bracket and no dollar sign: square brackets delimit
  the citation tokens, and a dollar sign is special in the replacement text of
  \<^verbatim>\<open>replaceAll\<close>.
\<close>

definition bracketFree :: "string \<Rightarrow> bool" where
  "bracketFree s = (CHR ''['' \<notin> set s \<and> CHR '']'' \<notin> set s)"

definition plainName :: "string \<Rightarrow> bool" where
  "plainName s = (bracketFree s \<and> CHR ''$'' \<notin> set s)"

text \<open>The text between the brackets of the formatted reference of a document.\<close>

definition labelledName :: "document \<Rightarrow> string" where
  "labelledName doc = filenameOf doc @ '' (Label: '' @ labelNameOf doc @ '')''"

text \<open>A document whose label name is the bracketed name of its own file.\<close>

definition selfCitingDocument :: document where
  "selfCitingDocument =
     \<lparr>pageContent = ''text'', source = Some ''doc1.pdf'',
      doc_label_metadata = Some \<lparr>label_id = Some ''L1'', label_name = Some ''[doc1.pdf]''\<rparr>\<rparr>"

section \<open>Requests in flight together\<close>

text \<open>
  The handler is suspended at the \<^verbatim>\<open>await\<close> of the scope lookup (line 252), between
  reading the cache (line 239) and writing it (line 263), and other requests may be handled
  meanwhile. \<open>resolveScopeAcross\<close> is \<open>resolveScope\<close> with the cache read in the state
  \<open>stRead\<close>, and the lookup and the write done in the state \<open>stResume\<close> that the handler
  finds when it resumes. When the cache has the entry there is no suspension.
\<close>

definition resolveScopeAcross ::
  "env \<Rightarrow> world \<Rightarrow> string \<Rightarrow> string \<Rightarrow> state \<Rightarrow> state \<Rightarrow> resolved_scope step" where
  "resolveScopeAcross e w userId accessToken stRead stResume =
     (case sessionProtectionDataMap stRead userId of
        None \<Rightarrow> fetchScope e w userId accessToken stResume
      | Some storedSessionData \<Rightarrow>
          if pd_etag storedSessionData = [] then fetchScope e w userId accessToken stResume
          else (Continue \<lparr>etagIdentifier = pd_etag storedSessionData,
                           uploadTextExecutionMode =
                             executionModeOf (pd_activityExecutionMap storedSessionData) ''uploadText'',
                           downloadTextExecutionMode =
                             executionModeOf (pd_activityExecutionMap storedSessionData) ''downloadText''\<rparr>,
                stRead, []))"

text \<open>The body of the \<^verbatim>\<open>try\<close> block and the handler, with the scope resolved in this way.\<close>

definition pipelineAcross ::
  "env \<Rightarrow> world \<Rightarrow> http_request \<Rightarrow> parsed_request \<Rightarrow> state \<Rightarrow> state \<Rightarrow> response step" where
  "pipelineAcross e w request p stRead stResume =
     (let sequence0 = storedSequence stRead (p_sessionId p) in
      andThen (getPurviewAccessTokens e w request stRead) (\<lambda>tokens st1.
      andThen (resolveScopeAcross e w (p_userId p) (oboToken tokens) st1 stResume) (\<lambda>scope st2.
      andThen (evaluateInline e w ''uploadText'' (uploadTextExecutionMode scope) (oboToken tokens)
                 (etagIdentifier scope) (p_sessionId p) (p_question p) sequence0 st2) (\<lambda>sequence1 st3.
      andThen (answering e w tokens p st3) (\<lambda>processedLlmResponse st4.
      andThen (evaluateInline e w ''downloadText'' (downloadTextExecutionMode scope) (oboToken tokens)
                 (etagIdentifier scope) (p_sessionId p) processedLlmResponse sequence1 st4) (\<lambda>sequence2 st5.
      andThen (titleStep w p st5) (\<lambda>u st6.
      andThen (offlineStep w tokens scope p processedLlmResponse sequence2 st6) (\<lambda>u st7.
        (Return (answerResponse (p_sessionId p) processedLlmResponse), st7, [])))))))))"

definition postChatsAcross ::
  "env \<Rightarrow> world \<Rightarrow> state \<Rightarrow> state \<Rightarrow> http_request \<Rightarrow> response \<times> state \<times> event list" where
  "postChatsAcross e w stRead stResume request =
     (case andThen (parseRequest w request, stRead, [])
             (\<lambda>p st. pipelineAcross e w request p st stResume) of
        (Throw err, st', trace) \<Rightarrow> (ServiceUnavailable serviceUnavailableMessage, st', trace)
      | (Return r, st', trace) \<Rightarrow> (r, st', trace)
      | (Continue r, st', trace) \<Rightarrow> (r, st', trace))"


text \<open>A state in which the session 123 has the stored sequence number 6.\<close>

definition countedState :: state where
  "countedState =
     \<lparr>sessionSequenceMap = Map.empty(''123'' \<mapsto> 6), sessionProtectionDataMap = Map.empty\<rparr>"

section \<open>Properties of the activity map\<close>

lemma fold_processActivity:
  "fst (fold (processActivity appId entry) xs (m, v)) a =
     (if a \<in> set xs
      then (if m a = None \<or> executionMode entry = Some ''evaluateInline''
            then Some (executionMode entry) else m a)
      else m a)"
  by (induction xs arbitrary: m v) (auto simp: processActivity_def)

lemma processEntry_lookup:
  "fst (processEntry appId entry acc) a =
     (if a \<in> set (activitiesList entry)
      then (if fst acc a = None \<or> executionMode entry = Some ''evaluateInline''
            then Some (executionMode entry) else fst acc a)
      else fst acc a)"
  by (cases acc) (simp add: processEntry_def fold_processActivity)

lemma fold_processEntry_absent:
  "\<forall>entry \<in> set entries. a \<notin> set (activitiesList entry) \<Longrightarrow>
   fst (fold (processEntry appId) entries acc) a = fst acc a"
  by (induction entries arbitrary: acc) (simp_all add: processEntry_lookup)

lemma fold_processEntry_present:
  "fst acc a = Some v \<Longrightarrow>
   fst (fold (processEntry appId) entries acc) a =
     Some (if \<exists>entry \<in> set (entriesFor a entries). executionMode entry = Some ''evaluateInline''
           then Some ''evaluateInline'' else v)"
proof (induction entries arbitrary: acc v)
  case Nil
  then show ?case by (simp add: entriesFor_def)
next
  case (Cons entry entries)
  show ?case
  proof (cases "a \<in> set (activitiesList entry) \<and> executionMode entry = Some ''evaluateInline''")
    case True
    then have "fst (processEntry appId entry acc) a = Some (Some ''evaluateInline'')"
      by (simp add: processEntry_lookup)
    from Cons.IH [OF this] True show ?thesis
      by (simp add: entriesFor_def)
  next
    case False
    then have "fst (processEntry appId entry acc) a = Some v"
      using Cons.prems by (auto simp: processEntry_lookup)
    from Cons.IH [OF this] False show ?thesis
      by (auto simp: entriesFor_def)
  qed
qed

lemma fold_processEntry_first:
  "fst acc a = None \<Longrightarrow> entriesFor a entries \<noteq> [] \<Longrightarrow>
   fst (fold (processEntry appId) entries acc) a =
     Some (if \<exists>entry \<in> set (entriesFor a entries). executionMode entry = Some ''evaluateInline''
           then Some ''evaluateInline'' else executionMode (hd (entriesFor a entries)))"
proof (induction entries arbitrary: acc)
  case Nil
  then show ?case by (simp add: entriesFor_def)
next
  case (Cons entry entries)
  show ?case
  proof (cases "a \<in> set (activitiesList entry)")
    case True
    then have "fst (processEntry appId entry acc) a = Some (executionMode entry)"
      using Cons.prems(1) by (simp add: processEntry_lookup)
    from fold_processEntry_present [OF this, of appId entries] True show ?thesis
      by (auto simp: entriesFor_def)
  next
    case False
    then have none: "fst (processEntry appId entry acc) a = None"
      using Cons.prems(1) by (simp add: processEntry_lookup)
    from False Cons.prems(2) have "entriesFor a entries \<noteq> []"
      by (simp add: entriesFor_def)
    from Cons.IH [OF none this] False show ?thesis
      by (auto simp: entriesFor_def)
  qed
qed

text \<open>
  Claim C4. In the activity map built from a protection-scope response, an activity named
  by at least one entry is recorded with the mode \<^verbatim>\<open>evaluateInline\<close> if any entry naming it
  has that mode, and otherwise with the mode of the first entry naming it; an activity
  named by no entry is not recorded and resolves to \<^verbatim>\<open>default\<close>.
\<close>

theorem activity_map_inline_wins:
  fixes appId :: "string option" and entries :: "scope_entry list" and activity :: string
  defines "m \<equiv> fst (buildActivityExecutionMap appId entries)"
  shows "(entriesFor activity entries \<noteq> [] \<longrightarrow>
            m activity =
              Some (if \<exists>entry \<in> set (entriesFor activity entries).
                         executionMode entry = Some ''evaluateInline''
                    then Some ''evaluateInline''
                    else executionMode (hd (entriesFor activity entries))))
       \<and> (entriesFor activity entries = [] \<longrightarrow>
            m activity = None \<and> executionModeOf m activity = ''default'')"
proof -
  have first: "m activity =
      Some (if \<exists>entry \<in> set (entriesFor activity entries).
                 executionMode entry = Some ''evaluateInline''
            then Some ''evaluateInline''
            else executionMode (hd (entriesFor activity entries)))"
    if present: "entriesFor activity entries \<noteq> []"
  proof -
    have fresh: "fst (Map.empty :: activity_map, False) activity = None"
      by simp
    from fold_processEntry_first [OF fresh present, of appId]
    show ?thesis
      unfolding m_def buildActivityExecutionMap_def .
  qed
  have absent: "m activity = None \<and> executionModeOf m activity = ''default''"
    if "entriesFor activity entries = []"
  proof -
    from that have "\<forall>entry \<in> set entries. activity \<notin> set (activitiesList entry)"
      by (simp add: entriesFor_def filter_empty_conv)
    then have "m activity = None"
      unfolding m_def buildActivityExecutionMap_def
      by (simp add: fold_processEntry_absent)
    then show ?thesis
      by (simp add: executionModeOf_def)
  qed
  from first absent show ?thesis
    by blast
qed

theorem activity_map_inline_wins_witness:
  "entriesFor ''uploadText'' exampleEntries \<noteq> []
   \<and> fst (buildActivityExecutionMap None exampleEntries) ''uploadText'' = Some (Some ''evaluateInline'')
   \<and> entriesFor ''downloadText'' exampleEntries \<noteq> []
   \<and> fst (buildActivityExecutionMap None exampleEntries) ''downloadText'' = Some (Some ''evaluateOffline'')
   \<and> entriesFor ''print'' exampleEntries = []
   \<and> executionModeOf (fst (buildActivityExecutionMap None exampleEntries)) ''print'' = ''default''"
  using activity_map_inline_wins [where activity = "''uploadText''" and appId = None and entries = exampleEntries]
    activity_map_inline_wins [where activity = "''downloadText''" and appId = None and entries = exampleEntries]
    activity_map_inline_wins [where activity = "''print''" and appId = None and entries = exampleEntries]
  by (simp add: exampleEntries_def entriesFor_def activitiesList_def trim_def isWhiteSpace_def)

section \<open>Properties of the string operations\<close>

lemma startsWith_prefix: "startsWith s p \<longleftrightarrow> prefix p s"
  by (induction s p rule: startsWith.induct) auto

lemma includes_str_sublist: "includes_str s t \<longleftrightarrow> sublist t s"
  by (induction s) (simp_all add: startsWith_prefix sublist_Cons_right)

lemma includes_str_empty: "includes_str s []"
  by (simp add: includes_str_sublist)

section \<open>Properties of the label filter\<close>

lemma labelTask_Some: "labelTask lookup accepted doc = Some d \<Longrightarrow> d = doc"
  by (auto simp: labelTask_def split: option.splits if_splits sum.splits)

lemma labelFilter_filter:
  "labelFilter lookup accepted docs = filter (\<lambda>doc. labelTask lookup accepted doc \<noteq> None) docs"
proof (induction docs)
  case Nil
  show ?case by (simp add: labelFilter_def)
next
  case (Cons doc docs)
  then show ?case
    by (cases "labelTask lookup accepted doc") (auto simp: labelFilter_def dest: labelTask_Some)
qed

lemma labelTask_retained:
  "labelTask lookup accepted doc \<noteq> None \<longleftrightarrow>
     (\<exists>labelId labelInfo. documentLabelIdOf doc = Some labelId \<and> labelId \<noteq> []
        \<and> lookup labelId = Inr labelInfo
        \<and> sublist (rightsValueOf (rightsValueRaw labelInfo)) accepted)"
  by (auto simp: labelTask_def includes_str_sublist split: option.splits sum.splits)

text \<open>
  Claim C1, as stated, asks that a document without a label id passes the label filter.
  The callback of \<^verbatim>\<open>labelTasks\<close> returns \<^verbatim>\<open>null\<close> for such a document, so the filter drops
  it: here the only retrieved document has no label metadata and the output is empty.
\<close>

theorem unlabelled_document_counterexample:
  "documentLabelIdOf unlabelledDocument = None
   \<and> labelFilter (getLabelInfo (exampleWorld [] ''none'') ''app'' ''user'') (acceptedAccessRightOf exampleEnv)
        [unlabelledDocument] = []"
  by (simp add: labelFilter_def labelTask_def documentLabelIdOf_def unlabelledDocument_def)

text \<open>
  Claim C1, amended. The output of the label filter is the list of retrieved documents, in
  their order, restricted to those that carry a non-empty label id whose lookup succeeded
  and whose rights value, lower-cased (the empty string when it is not a string), occurs in
  the lower-cased accepted-rights string. A document without a label id is dropped. A
  document whose lookup fails is dropped and the output for the others is unchanged.
\<close>

theorem label_filter_retains:
  fixes w :: world and e :: env and tokens :: purview_tokens
  defines "lookup \<equiv> getLabelInfo w (appToken tokens) (userName tokens)"
  defines "accepted \<equiv> toLowerCase (orNullish (PURVIEW_ACCEPTED_ACCESS_RIGHTS e) ''default'')"
  shows "labelFilter lookup (acceptedAccessRightOf e) docs =
           filter (\<lambda>doc. \<exists>labelId labelInfo.
                      documentLabelIdOf doc = Some labelId \<and> labelId \<noteq> []
                    \<and> lookup labelId = Inr labelInfo
                    \<and> sublist (rightsValueOf (rightsValueRaw labelInfo)) accepted) docs
     \<and> (documentLabelIdOf doc = None \<longrightarrow>
          doc \<notin> set (labelFilter lookup (acceptedAccessRightOf e) docs))
     \<and> (documentLabelIdOf doc = Some labelId \<and> lookup labelId = Inl err \<longrightarrow>
          labelFilter lookup (acceptedAccessRightOf e) (docs @ doc # docs') =
            labelFilter lookup (acceptedAccessRightOf e) docs
            @ labelFilter lookup (acceptedAccessRightOf e) docs')"
proof -
  have eq: "labelFilter lookup (acceptedAccessRightOf e) ds =
           filter (\<lambda>doc. \<exists>labelId labelInfo.
                      documentLabelIdOf doc = Some labelId \<and> labelId \<noteq> []
                    \<and> lookup labelId = Inr labelInfo
                    \<and> sublist (rightsValueOf (rightsValueRaw labelInfo)) accepted) ds" for ds
    unfolding labelFilter_filter labelTask_retained accepted_def acceptedAccessRightOf_def ..
  show ?thesis
    unfolding eq by auto
qed

theorem label_filter_retains_witness:
  "documentLabelIdOf unlabelledDocument = None
   \<and> documentLabelIdOf exampleDocument = Some ''L1''
   \<and> labelFilter (getLabelInfo (exampleWorld [] ''none'') ''app'' ''user'') (acceptedAccessRightOf exampleEnv)
        [exampleDocument, unlabelledDocument] = [exampleDocument]"
  using label_filter_retains [where w = "exampleWorld [] ''none''" and e = exampleEnv
      and tokens = "\<lparr>oboToken = ''obo'', userName = ''user'', appToken = ''app''\<rparr>"
      and docs = "[exampleDocument, unlabelledDocument]" and doc = unlabelledDocument]
  by (simp add: exampleWorld_def exampleDocument_def unlabelledDocument_def documentLabelIdOf_def
      rightsValueOf_def rightsValueRaw_def toLowerCase_def toLowerChar_def exampleEnv_def
      orNullish_def sublist_Cons_right prefix_Cons)

text \<open>
  Claim C9. A document with a label id whose lookup succeeds but reports no string as
  rights value gets the empty string as rights value, and is accepted whatever the
  accepted-rights string is, since every string contains the empty string.
\<close>

theorem missing_rights_fail_open:
  assumes "documentLabelIdOf doc = Some labelId" and "labelId \<noteq> []"
    and "lookup labelId = Inr labelInfo"
    and "\<forall>v. rightsValueRaw labelInfo \<noteq> Some (JString v)"
  shows "rightsValueOf (rightsValueRaw labelInfo) = []
     \<and> labelTask lookup accepted doc = Some doc
     \<and> (doc \<in> set docs \<longrightarrow> doc \<in> set (labelFilter lookup accepted docs))"
proof -
  from assms(4) have empty: "rightsValueOf (rightsValueRaw labelInfo) = []"
    by (auto simp: rightsValueOf_def split: option.splits json_value.splits)
  with assms(1-3) have kept: "labelTask lookup accepted doc = Some doc"
    by (simp add: labelTask_def includes_str_empty)
  then have "doc \<in> set docs \<longrightarrow> doc \<in> set (labelFilter lookup accepted docs)"
    by (simp add: labelFilter_filter)
  with empty kept show ?thesis by simp
qed

theorem missing_rights_fail_open_witness:
  "labelTask (\<lambda>labelId. Inr (Some [\<lparr>rights_value = Some JOther\<rparr>])) ''view'' exampleDocument = Some exampleDocument
   \<and> exampleDocument \<in> set (labelFilter (\<lambda>labelId. Inr (Some [\<lparr>rights_value = Some JOther\<rparr>])) ''view''
        [unlabelledDocument, exampleDocument])"
  using missing_rights_fail_open [where doc = exampleDocument and labelId = "''L1''"
      and lookup = "\<lambda>labelId. Inr (Some [\<lparr>rights_value = Some JOther\<rparr>])"
      and labelInfo = "Some [\<lparr>rights_value = Some JOther\<rparr>]" and accepted = "''view''"
      and docs = "[unlabelledDocument, exampleDocument]"]
  by (simp add: exampleDocument_def documentLabelIdOf_def rightsValueRaw_def)

section \<open>Effects of the parts of the handler\<close>

lemma parseRequest_Return: "parseRequest w request = Return r \<Longrightarrow> isFailure r"
  by (auto simp: parseRequest_def Let_def split: option.splits if_splits)

lemma getAccessTokensthroughMSAL_effect:
  "getAccessTokensthroughMSAL w userToken scopes st = (r, st', trace) \<Longrightarrow>
   st' = st \<and> (\<forall>ev \<in> set trace. isTokenCall ev)"
  by (auto simp: getAccessTokensthroughMSAL_def Let_def split: sum.splits option.splits if_splits)

lemma getPurviewAccessTokens_effect:
  "getPurviewAccessTokens e w request st = (r, st', trace) \<Longrightarrow>
   st' = st \<and> (\<forall>ev \<in> set trace. isTokenCall ev)"
  by (auto simp: getPurviewAccessTokens_def split: option.splits if_splits
      dest: getAccessTokensthroughMSAL_effect)

lemma resolveScope_effect:
  "resolveScope e w userId accessToken st = (r, st', trace) \<Longrightarrow>
   sessionSequenceMap st' = sessionSequenceMap st \<and> (\<forall>ev \<in> set trace. isScopeCall ev)"
  by (auto simp: resolveScope_def fetchScope_def Let_def split: sum.splits option.splits if_splits)

lemma answering_effect:
  "answering e w tokens p st = (r, st', trace) \<Longrightarrow>
   st' = st \<and> (\<forall>ev \<in> set trace. \<not> isScopeCall ev \<and> \<not> isEvaluationCall ev \<and> \<not> isTitleCall ev \<and> \<not> isEnqueueCall ev)"
  by (auto simp: answering_def Let_def split: sum.splits)

lemma pipeline_tokens_Throw:
  "getPurviewAccessTokens e w request st = (Throw err, st1, trace) \<Longrightarrow>
   pipeline e w request p st = (Throw err, st1, trace)"
  by (simp add: pipeline_def andThen_def Let_def)

lemma postChats_parse_fails:
  "(\<And>p. parseRequest w request \<noteq> Continue p) \<Longrightarrow>
   isFailure (fst (postChats e w st request)) \<and> snd (postChats e w st request) = (st, [])"
  by (cases "parseRequest w request") (auto simp: postChats_def andThen_def dest: parseRequest_Return)

lemma postChats_tokens_Throw:
  assumes "getPurviewAccessTokens e w request st = (Throw err, st1, trace)"
  shows "isFailure (fst (postChats e w st request))
     \<and> fst (snd (postChats e w st request)) = st
     \<and> (snd (snd (postChats e w st request)) = [] \<or> snd (snd (postChats e w st request)) = trace)"
proof (cases "\<exists>p. parseRequest w request = Continue p")
  case True
  then obtain p where p: "parseRequest w request = Continue p" ..
  from getPurviewAccessTokens_effect [OF assms] have "st1 = st" by simp
  with p pipeline_tokens_Throw [OF assms, of p] show ?thesis
    by (simp add: postChats_def andThen_def)
next
  case False
  then have "\<And>p. parseRequest w request \<noteq> Continue p" by simp
  from postChats_parse_fails [OF this, of e st] show ?thesis by simp
qed

lemma bad_header_Throw:
  "authorization request = None \<or> (\<exists>h. authorization request = Some h \<and> \<not> startsWith h ''Bearer '') \<Longrightarrow>
   getPurviewAccessTokens e w request st = (Throw MissingAuthorizationHeader, st, [])"
  by (auto simp: getPurviewAccessTokens_def)

lemma obo_fails_Throw:
  assumes "authorization request = Some h" and "startsWith h ''Bearer ''"
    and "noAccessToken (acquireTokenOnBehalfOf w (bearerTokenOf h) (downstreamApiScopeOf e))"
  shows "\<exists>err. getPurviewAccessTokens e w request st =
           (Throw err, st, [CallAcquireTokenOnBehalfOf (bearerTokenOf h)])"
  using assms
  by (auto simp: getPurviewAccessTokens_def getAccessTokensthroughMSAL_def noAccessToken_def
      hasAccessToken_def split: sum.splits option.splits)

lemma client_credential_fails_Throw:
  assumes "authorization request = Some h" and "startsWith h ''Bearer ''"
    and "acquireTokenOnBehalfOf w (bearerTokenOf h) (downstreamApiScopeOf e) = Inr (Some response)"
    and "noAccessToken (acquireTokenByClientCredential w [''https://graph.microsoft.com/.default'']
           (''https://login.microsoftonline.com/'' @ ar_tenantId response))"
  shows "\<exists>err trace. getPurviewAccessTokens e w request st = (Throw err, st, trace)"
  using assms
  by (auto simp: getPurviewAccessTokens_def getAccessTokensthroughMSAL_def noAccessToken_def
      Let_def split: sum.splits option.splits)

text \<open>
  Claim C8. When the \<^verbatim>\<open>Authorization\<close> header is missing or does not start with
  \<^verbatim>\<open>Bearer\<close> and a space, token acquisition throws and the request fails with no call made
  and the state unchanged. When the header is well formed and the on-behalf-of exchange or
  the client-credential exchange yields no access token, the request fails as well, and
  the only calls made are token exchanges.
\<close>

theorem token_failures_fail_request:
  fixes e :: env and w :: world and st :: state and request :: http_request
  defines "out \<equiv> postChats e w st request"
  shows "(authorization request = None
            \<or> (\<exists>h. authorization request = Some h \<and> \<not> startsWith h ''Bearer '')
          \<longrightarrow> getPurviewAccessTokens e w request st = (Throw MissingAuthorizationHeader, st, [])
               \<and> isFailure (fst out) \<and> snd out = (st, []))
     \<and> (authorization request = Some h \<and> startsWith h ''Bearer ''
          \<and> (noAccessToken (acquireTokenOnBehalfOf w (bearerTokenOf h) (downstreamApiScopeOf e))
             \<or> (\<exists>response.
                   acquireTokenOnBehalfOf w (bearerTokenOf h) (downstreamApiScopeOf e) = Inr (Some response)
                 \<and> noAccessToken (acquireTokenByClientCredential w [''https://graph.microsoft.com/.default'']
                      (''https://login.microsoftonline.com/'' @ ar_tenantId response))))
          \<longrightarrow> isFailure (fst out) \<and> fst (snd out) = st \<and> (\<forall>ev \<in> set (snd (snd out)). isTokenCall ev))"
proof (intro conjI impI)
  assume bad: "authorization request = None
      \<or> (\<exists>h. authorization request = Some h \<and> \<not> startsWith h ''Bearer '')"
  from bad_header_Throw [OF bad]
  show thr: "getPurviewAccessTokens e w request st = (Throw MissingAuthorizationHeader, st, [])" .
  from postChats_tokens_Throw [OF thr]
  show "isFailure (fst out)" and "snd out = (st, [])"
    unfolding out_def by (auto simp: prod_eq_iff)
next
  assume h: "authorization request = Some h \<and> startsWith h ''Bearer ''
      \<and> (noAccessToken (acquireTokenOnBehalfOf w (bearerTokenOf h) (downstreamApiScopeOf e))
         \<or> (\<exists>response.
               acquireTokenOnBehalfOf w (bearerTokenOf h) (downstreamApiScopeOf e) = Inr (Some response)
             \<and> noAccessToken (acquireTokenByClientCredential w [''https://graph.microsoft.com/.default'']
                  (''https://login.microsoftonline.com/'' @ ar_tenantId response))))"
  then obtain err trace where thr: "getPurviewAccessTokens e w request st = (Throw err, st, trace)"
    using obo_fails_Throw [of request h w e st] client_credential_fails_Throw [of request h w e _ st]
    by blast
  from getPurviewAccessTokens_effect [OF thr] have tok: "\<forall>ev \<in> set trace. isTokenCall ev"
    by simp
  from postChats_tokens_Throw [OF thr] tok
  show "isFailure (fst out)" and "fst (snd out) = st" and "\<forall>ev \<in> set (snd (snd out)). isTokenCall ev"
    unfolding out_def by auto
qed

theorem token_failures_fail_request_witness:
  "authorization (exampleRequest None exampleMessages) = None
   \<and> postChats exampleEnv (exampleWorld exampleEntries ''none'') initialState
       (exampleRequest None exampleMessages)
     = (ServiceUnavailable serviceUnavailableMessage, initialState, [])
   \<and> startsWith ''Bearer tok'' ''Bearer ''
   \<and> noAccessToken (acquireTokenOnBehalfOf noOboWorld (bearerTokenOf ''Bearer tok'') (downstreamApiScopeOf exampleEnv))
   \<and> isFailure (fst (postChats exampleEnv noOboWorld initialState (exampleRequest (Some ''Bearer tok'') exampleMessages)))"
  using token_failures_fail_request [where request = "exampleRequest None exampleMessages"
      and e = exampleEnv and w = "exampleWorld exampleEntries ''none''" and st = initialState]
    token_failures_fail_request [where request = "exampleRequest (Some ''Bearer tok'') exampleMessages"
      and h = "''Bearer tok''" and e = exampleEnv and w = noOboWorld and st = initialState]
  by (simp add: exampleRequest_def noOboWorld_def noAccessToken_def hasAccessToken_def exampleWorld_def
      postChats_def parseRequest_def exampleBody_def exampleMessages_def andThen_def pipeline_def
      getPurviewAccessTokens_def at_last_def getUserId_def truthy_def orElse_def)

section \<open>Request validation and the sequence counter at concrete requests\<close>

lemmas handler_defs =
  postChats_def parseRequest_def andThen_def at_last_def Let_def pipeline_def
  getPurviewAccessTokens_def getAccessTokensthroughMSAL_def bearerTokenOf_def downstreamApiScopeOf_def
  resolveScope_def fetchScope_def processProtectionScopeApiResponse_def buildActivityExecutionMap_def
  processEntry_def processActivity_def activitiesList_def trim_def isWhiteSpace_def executionModeOf_def
  orElse_def orNullish_def truthy_def evaluateInline_def constructProcessContentRequestBody_def
  answering_def labelFilter_def labelTask_def lookedUpLabelIds_def documentLabelIdOf_def
  documentLabelNameOf_def rightsValueRaw_def rightsValueOf_def acceptedAccessRightOf_def
  toLowerCase_def toLowerChar_def rewriteCitations_def rewriteCitation_def replaceAll_def
  bareReference_def formattedReference_def filenameOf_def labelNameOf_def templateString_def
  titleStep_def offlineStep_def storedSequence_def answerResponse_def getUserId_def
  hasAccessToken_def blockResponse_def createJsonStreamForBlock_def

lemmas example_defs =
  exampleEnv_def exampleWorld_def exampleRequest_def exampleBody_def exampleMessages_def
  exampleEntries_def inlineUploadEntries_def inlineDownloadEntries_def exampleDocument_def
  exampleAuthResult_def initialState_def

text \<open>
  Claim C5 asks for a bad-request response when the \<open>messages\<close> array is empty or absent.
  The handler reads \<^verbatim>\<open>messages.at(-1)!.content\<close> before it tests \<open>messages\<close>, so for such a
  body the read throws and the handler answers with the service-unavailable response, with
  no call made and the state unchanged.
\<close>

theorem unreadable_messages_service_unavailable:
  assumes "json_body request = Some body" and "messages body = None \<or> messages body = Some []"
  shows "postChats e w st request = (ServiceUnavailable serviceUnavailableMessage, st, [])"
  using assms by (auto simp: postChats_def parseRequest_def andThen_def at_last_def Let_def)

theorem unreadable_messages_service_unavailable_witness:
  "json_body (exampleRequest (Some ''Bearer tok'') (Some [])) = Some (exampleBody (Some []))
   \<and> messages (exampleBody (Some [])) = Some []
   \<and> postChats exampleEnv (exampleWorld exampleEntries ''none'') initialState
        (exampleRequest (Some ''Bearer tok'') (Some []))
      = (ServiceUnavailable serviceUnavailableMessage, initialState, [])"
  using unreadable_messages_service_unavailable [where request = "exampleRequest (Some ''Bearer tok'') (Some [])"
      and body = "exampleBody (Some [])" and e = exampleEnv
      and w = "exampleWorld exampleEntries ''none''" and st = initialState]
  by (simp add: exampleRequest_def exampleBody_def)

text \<open>
  Claim C2 asks that the stored sequence counter of a session is the sum of the increments
  of its requests. Here two requests of one session are handled one after the other; the
  scope has \<^verbatim>\<open>uploadText\<close> in mode \<^verbatim>\<open>evaluateInline\<close> and nothing else, and every evaluation
  allows the text. Each request performs one inline evaluation, yet nothing is stored for
  the session, and both evaluations are sent with the sequence number 0.
\<close>

theorem sequence_counter_not_stored:
  "(case run exampleEnv initialState
      [(exampleWorld inlineUploadEntries ''none'', exampleRequest (Some ''Bearer tok'') exampleMessages),
       (exampleWorld inlineUploadEntries ''none'', exampleRequest (Some ''Bearer tok'') exampleMessages)] of
     (st, outs) \<Rightarrow>
       (sessionSequenceMap st ''123'', map (\<lambda>(r, trace). evaluatedSequences trace) outs, map (\<lambda>(r, trace). isFailure r) outs))
   = (None, [[0], [0]], [False, False])"
  by (simp add: handler_defs example_defs evaluatedSequences_def)

section \<open>Properties of the NDJSON chunks\<close>


lemma hexDigit_not_newline: "hexDigit n \<noteq> CHR 0x0A"
proof -
  have "hexDigit n \<in> set ''0123456789abcdef''"
    unfolding hexDigit_def by (rule nth_mem) simp
  then show ?thesis by auto
qed

lemma quoteJSONChar_no_newline: "CHR 0x0A \<notin> set (quoteJSONChar c)"
  using hexDigit_not_newline [of "of_char c div 16"] hexDigit_not_newline [of "of_char c"]
  by (auto simp: quoteJSONChar_def)

lemma quoteJSONString_no_newline: "CHR 0x0A \<notin> set (quoteJSONString s)"
  by (auto simp: quoteJSONString_def quoteJSONChar_no_newline)

lemma stringifyDelta_no_newline: "CHR 0x0A \<notin> set (stringifyDelta contentText sessionId)"
  by (simp add: stringifyDelta_def quoteJSONString_no_newline)

lemma concat_quote_plain:
  "\<forall>c \<in> set s. quoteJSONChar c = [c] \<Longrightarrow> concat (map quoteJSONChar s) = s"
  by (induction s) simp_all

lemma quoteJSONChar_plain:
  "c \<in> set ''ABCDEFGHIJKLMNOPQRSTUVWXYZabcdefghijklmnopqrstuvwxyz .'' \<Longrightarrow> quoteJSONChar c = [c]"
  by (auto simp: quoteJSONChar_def)

lemma quote_blockMessage: "quoteJSONString blockMessage = CHR 0x22 # blockMessage @ [CHR 0x22]"
proof -
  have "\<forall>c \<in> set blockMessage. quoteJSONChar c = [c]"
    by (auto simp: blockMessage_def intro!: quoteJSONChar_plain)
  then show ?thesis
    by (simp add: quoteJSONString_def concat_quote_plain)
qed

lemma block_line:
  assumes "createJsonStreamForBlock sessionId blockMessage = [line]"
  shows "count_list line (CHR 0x0A) = 1 \<and> last line = CHR 0x0A \<and> sublist blockMessage line"
proof -
  from assms have line: "line = stringifyDelta blockMessage sessionId @ [CHR 0x0A]"
    by (simp add: createJsonStreamForBlock_def)
  have "count_list (stringifyDelta blockMessage sessionId) (CHR 0x0A) = 0"
    using stringifyDelta_no_newline by (simp add: count_list_0_iff)
  then have one: "count_list line (CHR 0x0A) = 1"
    by (simp add: line)
  have "line = (''{'' @ quoteJSONString ''delta'' @ '':{'' @ quoteJSONString ''content'' @ '':'' @ [CHR 0x22])
      @ blockMessage
      @ (CHR 0x22 # '','' @ quoteJSONString ''role'' @ '':'' @ quoteJSONString ''assistant'' @ ''},''
          @ quoteJSONString ''context'' @ '':{'' @ quoteJSONString ''sessionId'' @ '':''
          @ quoteJSONString sessionId @ ''}}'' @ [CHR 0x0A])"
    unfolding line stringifyDelta_def quote_blockMessage by simp
  then have "sublist blockMessage line"
    unfolding sublist_def by blast
  with one line show ?thesis by simp
qed

section \<open>Inline evaluation that blocks\<close>

lemma evaluateInline_effect:
  "evaluateInline e w activity mode accessToken etag sessionId text currentSequence st = (r, st', trace) \<Longrightarrow>
   sessionProtectionDataMap st' = sessionProtectionDataMap st \<and> (\<forall>ev \<in> set trace. isEvaluationCall ev)"
  by (auto simp: evaluateInline_def Let_def split: sum.splits if_splits)

lemma evaluateInline_Continue:
  "evaluateInline e w activity mode accessToken etag sessionId text currentSequence st = (Continue n, st', trace) \<Longrightarrow>
   st' = st \<and> n = currentSequence + length trace \<and> (\<forall>ev \<in> set trace. isEvaluationCall ev)
   \<and> length trace = (if mode = ''evaluateInline'' then 1 else 0)"
  by (auto simp: evaluateInline_def Let_def split: sum.splits if_splits)

lemma evaluateInline_restrict:
  assumes "mode = ''evaluateInline''"
    and "invokeProcessContentApi w accessToken etag
           (constructProcessContentRequestBody text ''BuildDemo-P4AI'' currentSequence sessionId activity
              (orElse (AZURE_AD_API_ID e) [])) = Inr result"
    and "policyAction result = Some ''restrictAccess''"
  shows "evaluateInline e w activity mode accessToken etag sessionId text currentSequence st =
     (Return (blockResponse sessionId),
      st\<lparr>sessionSequenceMap := (sessionSequenceMap st)(sessionId \<mapsto> currentSequence + 1)\<rparr>,
      [CallProcessContentApi etag
         (constructProcessContentRequestBody text ''BuildDemo-P4AI'' currentSequence sessionId activity
            (orElse (AZURE_AD_API_ID e) []))])"
  using assms by (simp add: evaluateInline_def Let_def orElse_def)

lemma quoteJSONChar_safe:
  "(32::nat) \<le> of_char c \<Longrightarrow> c \<noteq> CHR 0x22 \<Longrightarrow> c \<noteq> CHR 0x5C \<Longrightarrow> quoteJSONChar c = [c]"
  by (auto simp: quoteJSONChar_def)

lemma quoteJSONString_safe:
  assumes "\<forall>c \<in> set s. (32::nat) \<le> of_char c \<and> c \<noteq> CHR 0x22 \<and> c \<noteq> CHR 0x5C"
  shows "quoteJSONString s = [CHR 0x22] @ s @ [CHR 0x22]"
proof -
  from assms have "\<forall>c \<in> set s. quoteJSONChar c = [c]"
    by (simp add: quoteJSONChar_safe)
  then show ?thesis
    by (simp add: quoteJSONString_def concat_quote_plain)
qed

lemma block_line_explicit:
  "stringifyDelta blockMessage sessionId @ [CHR 0x0A] =
     ''{'' @ [CHR 0x22] @ ''delta'' @ [CHR 0x22] @ '':{''
     @ [CHR 0x22] @ ''content'' @ [CHR 0x22] @ '':''
     @ [CHR 0x22]
     @ ''This action has been blocked due to the security policies enforced by your organization.''
     @ [CHR 0x22] @ '',''
     @ [CHR 0x22] @ ''role'' @ [CHR 0x22] @ '':'' @ [CHR 0x22] @ ''assistant'' @ [CHR 0x22] @ ''},''
     @ [CHR 0x22] @ ''context'' @ [CHR 0x22] @ '':{''
     @ [CHR 0x22] @ ''sessionId'' @ [CHR 0x22] @ '':'' @ quoteJSONString sessionId @ ''}}''
     @ [CHR 0x0A]"
proof -
  have "quoteJSONString ''delta'' = [CHR 0x22] @ ''delta'' @ [CHR 0x22]"
    "quoteJSONString ''content'' = [CHR 0x22] @ ''content'' @ [CHR 0x22]"
    "quoteJSONString ''role'' = [CHR 0x22] @ ''role'' @ [CHR 0x22]"
    "quoteJSONString ''assistant'' = [CHR 0x22] @ ''assistant'' @ [CHR 0x22]"
    "quoteJSONString ''context'' = [CHR 0x22] @ ''context'' @ [CHR 0x22]"
    "quoteJSONString ''sessionId'' = [CHR 0x22] @ ''sessionId'' @ [CHR 0x22]"
    by (rule quoteJSONString_safe, simp)+
  moreover have "quoteJSONString blockMessage = [CHR 0x22]
     @ ''This action has been blocked due to the security policies enforced by your organization.''
     @ [CHR 0x22]"
    by (simp add: quote_blockMessage) (simp add: blockMessage_def)
  ultimately show ?thesis
    by (simp add: stringifyDelta_def)
qed

text \<open>
  Claim C3. When a request passes validation, the tokens are acquired, the scope gives
  \<^verbatim>\<open>uploadText\<close> the mode \<^verbatim>\<open>evaluateInline\<close> and the evaluation of the prompt, sent with
  the sequence number stored for the session (0 when there is none), answers
  \<^verbatim>\<open>restrictAccess\<close>, then the response is the data response with the NDJSON headers whose
  body is one chunk: the JSON object with the fixed block message as content of the delta,
  the role \<^verbatim>\<open>assistant\<close> and the session id as context, followed by a line feed, which is
  the only line feed of the chunk. The session id is quoted as a JSON string, which for an
  id without control characters, double quotes and backslashes is the id between double
  quotes. The trace has no retriever call, no label lookup, no chat-model or title call
  and nothing enqueued; its only evaluation is the one of the prompt. The sequence number
  stored for the session afterwards is the number stored before (0 when there was none)
  plus one.
\<close>

theorem prompt_block_short_circuits:
  assumes parse: "parseRequest w request = Continue p"
    and tokens: "getPurviewAccessTokens e w request st = (Continue tokens, st1, trace1)"
    and scope: "resolveScope e w (p_userId p) (oboToken tokens) st1 = (Continue scope, st2, trace2)"
    and mode: "uploadTextExecutionMode scope = ''evaluateInline''"
    and eval: "invokeProcessContentApi w (oboToken tokens) (etagIdentifier scope)
           \<lparr>pc_text = p_question p, pc_name = ''BuildDemo-P4AI'',
            pc_sequence = (case sessionSequenceMap st (p_sessionId p) of None \<Rightarrow> 0 | Some n \<Rightarrow> n),
            pc_sessionId = p_sessionId p, pc_activity = ''uploadText'',
            pc_appId = (case AZURE_AD_API_ID e of None \<Rightarrow> [] | Some appId \<Rightarrow> appId)\<rparr> = Inr result"
    and restrict: "policyAction result = Some ''restrictAccess''"
    and out: "postChats e w st request = (response, st', trace)"
  shows "(\<exists>line. response = Data [line]
              [(''Content-Type'', ''application/x-ndjson''), (''Transfer-Encoding'', ''chunked'')]
            \<and> line =
                ''{'' @ [CHR 0x22] @ ''delta'' @ [CHR 0x22] @ '':{''
                @ [CHR 0x22] @ ''content'' @ [CHR 0x22] @ '':''
                @ [CHR 0x22]
                @ ''This action has been blocked due to the security policies enforced by your organization.''
                @ [CHR 0x22] @ '',''
                @ [CHR 0x22] @ ''role'' @ [CHR 0x22] @ '':'' @ [CHR 0x22] @ ''assistant'' @ [CHR 0x22] @ ''},''
                @ [CHR 0x22] @ ''context'' @ [CHR 0x22] @ '':{''
                @ [CHR 0x22] @ ''sessionId'' @ [CHR 0x22] @ '':'' @ quoteJSONString (p_sessionId p) @ ''}}''
                @ [CHR 0x0A]
            \<and> count_list line (CHR 0x0A) = 1 \<and> last line = CHR 0x0A)
     \<and> CHR 0x0A \<notin> set (quoteJSONString (p_sessionId p))
     \<and> ((\<forall>c \<in> set (p_sessionId p). (32::nat) \<le> of_char c \<and> c \<noteq> CHR 0x22 \<and> c \<noteq> CHR 0x5C) \<longrightarrow>
          quoteJSONString (p_sessionId p) = [CHR 0x22] @ p_sessionId p @ [CHR 0x22])
     \<and> (\<forall>ev \<in> set trace.
          (\<forall>question. ev \<noteq> CallRetriever question) \<and> (\<forall>labelId. ev \<noteq> CallGetLabelInfo labelId)
        \<and> (\<forall>docs. ev \<noteq> CallChatModel docs) \<and> ev \<noteq> CallTitleModel
        \<and> (\<forall>args. ev \<noteq> CallEnqueueOffline args))
     \<and> filter isEvaluationCall trace =
          [CallProcessContentApi (etagIdentifier scope)
             \<lparr>pc_text = p_question p, pc_name = ''BuildDemo-P4AI'',
              pc_sequence = (case sessionSequenceMap st (p_sessionId p) of None \<Rightarrow> 0 | Some n \<Rightarrow> n),
              pc_sessionId = p_sessionId p, pc_activity = ''uploadText'',
              pc_appId = (case AZURE_AD_API_ID e of None \<Rightarrow> [] | Some appId \<Rightarrow> appId)\<rparr>]
     \<and> sessionSequenceMap st' (p_sessionId p) =
          Some ((case sessionSequenceMap st (p_sessionId p) of None \<Rightarrow> 0 | Some n \<Rightarrow> n) + 1)"
proof -
  from getPurviewAccessTokens_effect [OF tokens]
  have st1: "st1 = st" and t1: "\<forall>ev \<in> set trace1. isTokenCall ev"
    by simp_all
  from resolveScope_effect [OF scope]
  have t2: "\<forall>ev \<in> set trace2. isScopeCall ev"
    by simp
  let ?stored = "case sessionSequenceMap st (p_sessionId p) of None \<Rightarrow> 0 | Some n \<Rightarrow> n"
  let ?body = "\<lparr>pc_text = p_question p, pc_name = ''BuildDemo-P4AI'', pc_sequence = ?stored,
            pc_sessionId = p_sessionId p, pc_activity = ''uploadText'',
            pc_appId = (case AZURE_AD_API_ID e of None \<Rightarrow> [] | Some appId \<Rightarrow> appId)\<rparr>"
  have stored: "storedSequence st (p_sessionId p) = ?stored"
    by (simp add: storedSequence_def)
  have appId: "orElse (AZURE_AD_API_ID e) [] = (case AZURE_AD_API_ID e of None \<Rightarrow> [] | Some appId \<Rightarrow> appId)"
    by (simp add: orElse_def split: option.splits)
  have body: "constructProcessContentRequestBody (p_question p) ''BuildDemo-P4AI''
      (storedSequence st (p_sessionId p)) (p_sessionId p) ''uploadText''
      (orElse (AZURE_AD_API_ID e) []) = ?body"
    by (simp add: constructProcessContentRequestBody_def stored appId)
  from eval body have eval': "invokeProcessContentApi w (oboToken tokens) (etagIdentifier scope)
      (constructProcessContentRequestBody (p_question p) ''BuildDemo-P4AI''
         (storedSequence st (p_sessionId p)) (p_sessionId p) ''uploadText''
         (orElse (AZURE_AD_API_ID e) [])) = Inr result"
    by simp
  have "pipeline e w request p st =
      (Return (blockResponse (p_sessionId p)),
       st2\<lparr>sessionSequenceMap := (sessionSequenceMap st2)(p_sessionId p \<mapsto> ?stored + 1)\<rparr>,
       trace1 @ trace2 @ [CallProcessContentApi (etagIdentifier scope) ?body])"
    using tokens scope evaluateInline_restrict [OF mode eval' restrict] body stored
    by (simp add: pipeline_def andThen_def Let_def st1)
  with parse out
  have response: "response = blockResponse (p_sessionId p)"
    and st': "st' = st2\<lparr>sessionSequenceMap := (sessionSequenceMap st2)(p_sessionId p \<mapsto> ?stored + 1)\<rparr>"
    and trace: "trace = trace1 @ trace2 @ [CallProcessContentApi (etagIdentifier scope) ?body]"
    by (simp_all add: postChats_def andThen_def)
  have tok_ev: "isTokenCall ev \<Longrightarrow>
      (\<forall>question. ev \<noteq> CallRetriever question) \<and> (\<forall>labelId. ev \<noteq> CallGetLabelInfo labelId)
      \<and> (\<forall>docs. ev \<noteq> CallChatModel docs) \<and> ev \<noteq> CallTitleModel
      \<and> (\<forall>args. ev \<noteq> CallEnqueueOffline args) \<and> \<not> isEvaluationCall ev" for ev
    by (cases ev) simp_all
  have scope_ev: "isScopeCall ev \<Longrightarrow>
      (\<forall>question. ev \<noteq> CallRetriever question) \<and> (\<forall>labelId. ev \<noteq> CallGetLabelInfo labelId)
      \<and> (\<forall>docs. ev \<noteq> CallChatModel docs) \<and> ev \<noteq> CallTitleModel
      \<and> (\<forall>args. ev \<noteq> CallEnqueueOffline args) \<and> \<not> isEvaluationCall ev" for ev
    by (cases ev) simp_all
  have calls: "\<forall>ev \<in> set trace.
          (\<forall>question. ev \<noteq> CallRetriever question) \<and> (\<forall>labelId. ev \<noteq> CallGetLabelInfo labelId)
        \<and> (\<forall>docs. ev \<noteq> CallChatModel docs) \<and> ev \<noteq> CallTitleModel
        \<and> (\<forall>args. ev \<noteq> CallEnqueueOffline args)"
    unfolding trace using t1 t2 tok_ev scope_ev by auto
  have "filter isEvaluationCall trace1 = []" "filter isEvaluationCall trace2 = []"
    using t1 t2 tok_ev scope_ev by (auto simp: filter_empty_conv)
  then have evals: "filter isEvaluationCall trace = [CallProcessContentApi (etagIdentifier scope) ?body]"
    by (simp add: trace)
  from block_line [of "p_sessionId p" "stringifyDelta blockMessage (p_sessionId p) @ [CHR 0x0A]"]
  have line: "count_list (stringifyDelta blockMessage (p_sessionId p) @ [CHR 0x0A]) (CHR 0x0A) = 1"
    "last (stringifyDelta blockMessage (p_sessionId p) @ [CHR 0x0A]) = CHR 0x0A"
    by (simp_all add: createJsonStreamForBlock_def)
  have first: "\<exists>line. response = Data [line]
              [(''Content-Type'', ''application/x-ndjson''), (''Transfer-Encoding'', ''chunked'')]
            \<and> line =
                ''{'' @ [CHR 0x22] @ ''delta'' @ [CHR 0x22] @ '':{''
                @ [CHR 0x22] @ ''content'' @ [CHR 0x22] @ '':''
                @ [CHR 0x22]
                @ ''This action has been blocked due to the security policies enforced by your organization.''
                @ [CHR 0x22] @ '',''
                @ [CHR 0x22] @ ''role'' @ [CHR 0x22] @ '':'' @ [CHR 0x22] @ ''assistant'' @ [CHR 0x22] @ ''},''
                @ [CHR 0x22] @ ''context'' @ [CHR 0x22] @ '':{''
                @ [CHR 0x22] @ ''sessionId'' @ [CHR 0x22] @ '':'' @ quoteJSONString (p_sessionId p) @ ''}}''
                @ [CHR 0x0A]
            \<and> count_list line (CHR 0x0A) = 1 \<and> last line = CHR 0x0A"
  proof (intro exI conjI)
    show "response = Data [stringifyDelta blockMessage (p_sessionId p) @ [CHR 0x0A]]
        [(''Content-Type'', ''application/x-ndjson''), (''Transfer-Encoding'', ''chunked'')]"
      by (simp add: response blockResponse_def createJsonStreamForBlock_def ndjsonHeaders_def)
  qed (rule block_line_explicit, rule line(1), rule line(2))
  have plain: "(\<forall>c \<in> set (p_sessionId p). (32::nat) \<le> of_char c \<and> c \<noteq> CHR 0x22 \<and> c \<noteq> CHR 0x5C) \<longrightarrow>
          quoteJSONString (p_sessionId p) = [CHR 0x22] @ p_sessionId p @ [CHR 0x22]"
    using quoteJSONString_safe [of "p_sessionId p"] by blast
  have counter: "sessionSequenceMap st' (p_sessionId p) = Some (?stored + 1)"
    by (simp add: st')
  from first quoteJSONString_no_newline [of "p_sessionId p"] plain calls evals counter
  show ?thesis
    by (intro conjI)
qed

theorem prompt_block_short_circuits_witness:
  "parseRequest (exampleWorld exampleEntries ''uploadText'') (exampleRequest (Some ''Bearer tok'') exampleMessages)
     = Continue \<lparr>p_userId = ''1'', p_sessionId = ''123'', p_question = ''Hi''\<rparr>
   \<and> sessionSequenceMap countedState ''123'' = Some 6
   \<and> fst (postChats exampleEnv (exampleWorld exampleEntries ''uploadText'') countedState
        (exampleRequest (Some ''Bearer tok'') exampleMessages))
      = Data [''{'' @ [CHR 0x22] @ ''delta'' @ [CHR 0x22] @ '':{''
                @ [CHR 0x22] @ ''content'' @ [CHR 0x22] @ '':''
                @ [CHR 0x22]
                @ ''This action has been blocked due to the security policies enforced by your organization.''
                @ [CHR 0x22] @ '',''
                @ [CHR 0x22] @ ''role'' @ [CHR 0x22] @ '':'' @ [CHR 0x22] @ ''assistant'' @ [CHR 0x22] @ ''},''
                @ [CHR 0x22] @ ''context'' @ [CHR 0x22] @ '':{''
                @ [CHR 0x22] @ ''sessionId'' @ [CHR 0x22] @ '':'' @ [CHR 0x22] @ ''123'' @ [CHR 0x22] @ ''}}''
                @ [CHR 0x0A]]
          [(''Content-Type'', ''application/x-ndjson''), (''Transfer-Encoding'', ''chunked'')]
   \<and> sessionSequenceMap (fst (snd (postChats exampleEnv (exampleWorld exampleEntries ''uploadText'') countedState
        (exampleRequest (Some ''Bearer tok'') exampleMessages)))) ''123'' = Some 7
   \<and> evaluatedSequences (snd (snd (postChats exampleEnv (exampleWorld exampleEntries ''uploadText'') countedState
        (exampleRequest (Some ''Bearer tok'') exampleMessages)))) = [6]"
proof -
  let ?w = "exampleWorld exampleEntries ''uploadText''"
  let ?request = "exampleRequest (Some ''Bearer tok'') exampleMessages"
  let ?p = "\<lparr>p_userId = ''1'', p_sessionId = ''123'', p_question = ''Hi''\<rparr>"
  let ?tokens = "\<lparr>oboToken = ''obo'', userName = ''user'', appToken = ''app''\<rparr>"
  have stored: "sessionSequenceMap countedState ''123'' = Some 6"
    by (simp add: countedState_def)
  have parse: "parseRequest ?w ?request = Continue ?p"
    by (simp add: handler_defs example_defs)
  have "\<exists>trace1. getPurviewAccessTokens exampleEnv ?w ?request countedState
      = (Continue ?tokens, countedState, trace1)"
    by (simp add: handler_defs example_defs)
  then obtain trace1 where tokens: "getPurviewAccessTokens exampleEnv ?w ?request countedState
      = (Continue ?tokens, countedState, trace1)" ..
  have "\<exists>scope st2 trace2. resolveScope exampleEnv ?w (p_userId ?p) (oboToken ?tokens) countedState
      = (Continue scope, st2, trace2) \<and> uploadTextExecutionMode scope = ''evaluateInline''"
    by (simp add: handler_defs example_defs countedState_def)
  then obtain scope st2 trace2 where
    scope: "resolveScope exampleEnv ?w (p_userId ?p) (oboToken ?tokens) countedState
      = (Continue scope, st2, trace2)" and mode: "uploadTextExecutionMode scope = ''evaluateInline''"
    by blast
  let ?body = "\<lparr>pc_text = p_question ?p, pc_name = ''BuildDemo-P4AI'',
            pc_sequence = (case sessionSequenceMap countedState (p_sessionId ?p) of None \<Rightarrow> 0 | Some n \<Rightarrow> n),
            pc_sessionId = p_sessionId ?p, pc_activity = ''uploadText'',
            pc_appId = (case AZURE_AD_API_ID exampleEnv of None \<Rightarrow> [] | Some appId \<Rightarrow> appId)\<rparr>"
  have "\<exists>result. invokeProcessContentApi ?w (oboToken ?tokens) (etagIdentifier scope) ?body = Inr result
        \<and> policyAction result = Some ''restrictAccess''"
    by (simp add: exampleWorld_def)
  then obtain result where
    eval: "invokeProcessContentApi ?w (oboToken ?tokens) (etagIdentifier scope) ?body = Inr result"
    and restrict: "policyAction result = Some ''restrictAccess''"
    by blast
  obtain response st' trace where out: "postChats exampleEnv ?w countedState ?request = (response, st', trace)"
    by (cases "postChats exampleEnv ?w countedState ?request")
  have plainId: "\<forall>c \<in> set (p_sessionId ?p). (32::nat) \<le> of_char c \<and> c \<noteq> CHR 0x22 \<and> c \<noteq> CHR 0x5C"
    by simp
  note claim = prompt_block_short_circuits [OF parse tokens scope mode eval restrict out]
  from claim plainId have quoted: "quoteJSONString ''123'' = [CHR 0x22] @ ''123'' @ [CHR 0x22]"
    by simp
  from claim have "\<exists>line. response = Data [line]
              [(''Content-Type'', ''application/x-ndjson''), (''Transfer-Encoding'', ''chunked'')]
            \<and> line =
                ''{'' @ [CHR 0x22] @ ''delta'' @ [CHR 0x22] @ '':{''
                @ [CHR 0x22] @ ''content'' @ [CHR 0x22] @ '':''
                @ [CHR 0x22]
                @ ''This action has been blocked due to the security policies enforced by your organization.''
                @ [CHR 0x22] @ '',''
                @ [CHR 0x22] @ ''role'' @ [CHR 0x22] @ '':'' @ [CHR 0x22] @ ''assistant'' @ [CHR 0x22] @ ''},''
                @ [CHR 0x22] @ ''context'' @ [CHR 0x22] @ '':{''
                @ [CHR 0x22] @ ''sessionId'' @ [CHR 0x22] @ '':'' @ quoteJSONString ''123'' @ ''}}''
                @ [CHR 0x0A]"
    by simp
  then have response: "response = Data [''{'' @ [CHR 0x22] @ ''delta'' @ [CHR 0x22] @ '':{''
                @ [CHR 0x22] @ ''content'' @ [CHR 0x22] @ '':''
                @ [CHR 0x22]
                @ ''This action has been blocked due to the security policies enforced by your organization.''
                @ [CHR 0x22] @ '',''
                @ [CHR 0x22] @ ''role'' @ [CHR 0x22] @ '':'' @ [CHR 0x22] @ ''assistant'' @ [CHR 0x22] @ ''},''
                @ [CHR 0x22] @ ''context'' @ [CHR 0x22] @ '':{''
                @ [CHR 0x22] @ ''sessionId'' @ [CHR 0x22] @ '':'' @ [CHR 0x22] @ ''123'' @ [CHR 0x22] @ ''}}''
                @ [CHR 0x0A]]
          [(''Content-Type'', ''application/x-ndjson''), (''Transfer-Encoding'', ''chunked'')]"
    unfolding quoted by simp
  from claim stored have counter: "sessionSequenceMap st' ''123'' = Some 7"
    by simp
  from claim stored have "filter isEvaluationCall trace =
      [CallProcessContentApi (etagIdentifier scope) ?body]"
    by simp
  then have "evaluatedSequences (filter isEvaluationCall trace) = [6]"
    by (simp add: evaluatedSequences_def stored)
  moreover have "evaluatedSequences (filter isEvaluationCall tr) = evaluatedSequences tr" for tr
    by (induction tr) (auto simp: evaluatedSequences_def split: event.splits)
  ultimately have sequences: "evaluatedSequences trace = [6]"
    by simp
  from stored parse response counter sequences out show ?thesis
    by simp
qed

text \<open>
  Claim C10. When a request reaches the evaluation of the response (validation, tokens,
  scope, evaluation of the prompt and answer all went through), the scope gives \<^verbatim>\<open>downloadText\<close> the
  mode \<^verbatim>\<open>evaluateInline\<close> and the evaluation answers \<^verbatim>\<open>restrictAccess\<close>, the handler
  returns the block response. The title of the session is not read, no title is generated
  or stored, and nothing is enqueued for offline evaluation, whatever the title and the
  mode of \<^verbatim>\<open>uploadText\<close> are. The sequence number stored for the session is the number read
  at the start plus the number of inline evaluations performed, which is 2 when the prompt
  was evaluated inline and 1 otherwise.
\<close>

theorem response_block_skips_title_and_offline:
  assumes parse: "parseRequest w request = Continue p"
    and tokens: "getPurviewAccessTokens e w request st = (Continue tokens, st1, trace1)"
    and scope: "resolveScope e w (p_userId p) (oboToken tokens) st1 = (Continue scope, st2, trace2)"
    and prompt: "evaluateInline e w ''uploadText'' (uploadTextExecutionMode scope) (oboToken tokens)
           (etagIdentifier scope) (p_sessionId p) (p_question p) (storedSequence st (p_sessionId p)) st2
         = (Continue sequence1, st3, trace3)"
    and answer: "answering e w tokens p st3 = (Continue processedLlmResponse, st4, trace4)"
    and mode: "downloadTextExecutionMode scope = ''evaluateInline''"
    and eval: "invokeProcessContentApi w (oboToken tokens) (etagIdentifier scope)
           (constructProcessContentRequestBody processedLlmResponse ''BuildDemo-P4AI''
              sequence1 (p_sessionId p) ''downloadText'' (orElse (AZURE_AD_API_ID e) [])) = Inr result"
    and restrict: "policyAction result = Some ''restrictAccess''"
    and out: "postChats e w st request = (response, st', trace)"
  shows "response = blockResponse (p_sessionId p)
     \<and> (\<forall>ev \<in> set trace. \<not> isTitleCall ev \<and> \<not> isEnqueueCall ev)
     \<and> length (filter isEvaluationCall trace)
         = (if uploadTextExecutionMode scope = ''evaluateInline'' then 2 else 1)
     \<and> sessionSequenceMap st' (p_sessionId p)
         = Some (storedSequence st (p_sessionId p) + length (filter isEvaluationCall trace))"
proof -
  from getPurviewAccessTokens_effect [OF tokens]
  have st1: "st1 = st" and t1: "\<forall>ev \<in> set trace1. isTokenCall ev"
    by simp_all
  from resolveScope_effect [OF scope]
  have t2: "\<forall>ev \<in> set trace2. isScopeCall ev"
    by simp
  from evaluateInline_Continue [OF prompt]
  have st3: "st3 = st2" and seq1: "sequence1 = storedSequence st (p_sessionId p) + length trace3"
    and t3: "\<forall>ev \<in> set trace3. isEvaluationCall ev"
    and l3: "length trace3 = (if uploadTextExecutionMode scope = ''evaluateInline'' then 1 else 0)"
    by simp_all
  from answering_effect [OF answer]
  have st4: "st4 = st3"
    and t4: "\<forall>ev \<in> set trace4. \<not> isScopeCall ev \<and> \<not> isEvaluationCall ev \<and> \<not> isTitleCall ev \<and> \<not> isEnqueueCall ev"
    by simp_all
  let ?body = "constructProcessContentRequestBody processedLlmResponse ''BuildDemo-P4AI''
              sequence1 (p_sessionId p) ''downloadText'' (orElse (AZURE_AD_API_ID e) [])"
  have "pipeline e w request p st =
      (Return (blockResponse (p_sessionId p)),
       st2\<lparr>sessionSequenceMap := (sessionSequenceMap st2)(p_sessionId p \<mapsto> sequence1 + 1)\<rparr>,
       trace1 @ trace2 @ trace3 @ trace4 @ [CallProcessContentApi (etagIdentifier scope) ?body])"
    using tokens scope prompt answer evaluateInline_restrict [OF mode eval restrict]
    by (simp add: pipeline_def andThen_def Let_def st1 st3 st4)
  with parse out
  have response: "response = blockResponse (p_sessionId p)"
    and st': "st' = st2\<lparr>sessionSequenceMap := (sessionSequenceMap st2)(p_sessionId p \<mapsto> sequence1 + 1)\<rparr>"
    and trace: "trace = trace1 @ trace2 @ trace3 @ trace4 @ [CallProcessContentApi (etagIdentifier scope) ?body]"
    by (simp_all add: postChats_def andThen_def)
  have tok_ev: "isTokenCall ev \<Longrightarrow> \<not> isTitleCall ev \<and> \<not> isEnqueueCall ev \<and> \<not> isEvaluationCall ev" for ev
    by (cases ev) simp_all
  have scope_ev: "isScopeCall ev \<Longrightarrow> \<not> isTitleCall ev \<and> \<not> isEnqueueCall ev \<and> \<not> isEvaluationCall ev" for ev
    by (cases ev) simp_all
  have eval_ev: "isEvaluationCall ev \<Longrightarrow> \<not> isTitleCall ev \<and> \<not> isEnqueueCall ev" for ev
    by (cases ev) simp_all
  have calls: "\<forall>ev \<in> set trace. \<not> isTitleCall ev \<and> \<not> isEnqueueCall ev"
    using t1 t2 t3 t4 tok_ev scope_ev eval_ev by (auto simp: trace)
  have "filter isEvaluationCall trace1 = []" "filter isEvaluationCall trace2 = []"
    "filter isEvaluationCall trace4 = []" "filter isEvaluationCall trace3 = trace3"
    using t1 t2 t3 t4 tok_ev scope_ev by (auto simp: filter_empty_conv filter_id_conv)
  then have evals: "length (filter isEvaluationCall trace) = length trace3 + 1"
    by (simp add: trace)
  from response calls evals st' seq1 l3 show ?thesis
    by simp
qed

theorem response_block_skips_title_and_offline_witness:
  "getContextTitle (exampleWorld inlineDownloadEntries ''downloadText'') ''1'' ''123'' = Inr None
   \<and> executionModeOf (fst (buildActivityExecutionMap (Some ''app'') inlineDownloadEntries)) ''uploadText''
        = ''evaluateOffline''
   \<and> fst (postChats exampleEnv (exampleWorld inlineDownloadEntries ''downloadText'') initialState
        (exampleRequest (Some ''Bearer tok'') exampleMessages)) = blockResponse ''123''
   \<and> sessionSequenceMap (fst (snd (postChats exampleEnv (exampleWorld inlineDownloadEntries ''downloadText'')
        initialState (exampleRequest (Some ''Bearer tok'') exampleMessages)))) ''123'' = Some 1
   \<and> list_all (\<lambda>ev. \<not> isTitleCall ev \<and> \<not> isEnqueueCall ev)
        (snd (snd (postChats exampleEnv (exampleWorld inlineDownloadEntries ''downloadText'')
        initialState (exampleRequest (Some ''Bearer tok'') exampleMessages))))"
proof -
  let ?w = "exampleWorld inlineDownloadEntries ''downloadText''"
  let ?request = "exampleRequest (Some ''Bearer tok'') exampleMessages"
  let ?p = "\<lparr>p_userId = ''1'', p_sessionId = ''123'', p_question = ''Hi''\<rparr>"
  let ?tokens = "\<lparr>oboToken = ''obo'', userName = ''user'', appToken = ''app''\<rparr>"
  have title: "getContextTitle ?w ''1'' ''123'' = Inr None"
    by (simp add: exampleWorld_def)
  have upload: "executionModeOf (fst (buildActivityExecutionMap (Some ''app'') inlineDownloadEntries)) ''uploadText''
        = ''evaluateOffline''"
    by (simp add: handler_defs example_defs)
  have parse: "parseRequest ?w ?request = Continue ?p"
    by (simp add: handler_defs example_defs)
  have "\<exists>trace1. getPurviewAccessTokens exampleEnv ?w ?request initialState
      = (Continue ?tokens, initialState, trace1)"
    by (simp add: handler_defs example_defs)
  then obtain trace1 where tokens: "getPurviewAccessTokens exampleEnv ?w ?request initialState
      = (Continue ?tokens, initialState, trace1)" ..
  have "\<exists>scope st2 trace2. resolveScope exampleEnv ?w (p_userId ?p) (oboToken ?tokens) initialState
      = (Continue scope, st2, trace2) \<and> downloadTextExecutionMode scope = ''evaluateInline''
      \<and> uploadTextExecutionMode scope = ''evaluateOffline''"
    by (simp add: handler_defs example_defs)
  then obtain scope st2 trace2 where
    scope: "resolveScope exampleEnv ?w (p_userId ?p) (oboToken ?tokens) initialState
      = (Continue scope, st2, trace2)" and mode: "downloadTextExecutionMode scope = ''evaluateInline''"
    and up: "uploadTextExecutionMode scope = ''evaluateOffline''"
    by blast
  have prompt: "evaluateInline exampleEnv ?w ''uploadText'' (uploadTextExecutionMode scope) (oboToken ?tokens)
           (etagIdentifier scope) (p_sessionId ?p) (p_question ?p) (storedSequence initialState (p_sessionId ?p)) st2
         = (Continue 0, st2, [])"
    by (simp add: evaluateInline_def up storedSequence_def initialState_def)
  have "\<exists>processedLlmResponse trace4. answering exampleEnv ?w ?tokens ?p st2
      = (Continue processedLlmResponse, st2, trace4)"
    by (simp add: answering_def exampleWorld_def Let_def)
  then obtain processedLlmResponse trace4 where
    answer: "answering exampleEnv ?w ?tokens ?p st2 = (Continue processedLlmResponse, st2, trace4)"
    by blast
  have "\<exists>result. invokeProcessContentApi ?w (oboToken ?tokens) (etagIdentifier scope)
           (constructProcessContentRequestBody processedLlmResponse ''BuildDemo-P4AI''
              0 (p_sessionId ?p) ''downloadText''
              (orElse (AZURE_AD_API_ID exampleEnv) [])) = Inr result
        \<and> policyAction result = Some ''restrictAccess''"
    by (simp add: exampleWorld_def constructProcessContentRequestBody_def)
  then obtain result where
    eval: "invokeProcessContentApi ?w (oboToken ?tokens) (etagIdentifier scope)
           (constructProcessContentRequestBody processedLlmResponse ''BuildDemo-P4AI''
              0 (p_sessionId ?p) ''downloadText''
              (orElse (AZURE_AD_API_ID exampleEnv) [])) = Inr result"
    and restrict: "policyAction result = Some ''restrictAccess''"
    by blast
  obtain response st' trace where out: "postChats exampleEnv ?w initialState ?request = (response, st', trace)"
    by (cases "postChats exampleEnv ?w initialState ?request")
  from response_block_skips_title_and_offline [OF parse tokens scope prompt answer mode eval restrict out]
  have "response = blockResponse ''123''" and "sessionSequenceMap st' ''123'' = Some 1"
    and "list_all (\<lambda>ev. \<not> isTitleCall ev \<and> \<not> isEnqueueCall ev) trace"
    by (auto simp: storedSequence_def initialState_def up list_all_iff)
  with title upload out show ?thesis by simp
qed

section \<open>The policy-scope cache\<close>


lemma stepSat_unchanged:
  "Q st \<Longrightarrow> fst (snd m) = st \<Longrightarrow> list_all R (snd (snd m)) \<Longrightarrow> stepSat (\<lambda>x. True) Q R m"
  by (simp add: stepSat_def split: flow.splits)


















lemma resolveScopeAcross_same:
  "resolveScopeAcross e w userId accessToken st st = resolveScope e w userId accessToken st"
  by (simp add: resolveScopeAcross_def resolveScope_def)

lemma postChatsAcross_same: "postChatsAcross e w st st request = postChats e w st request"
proof (cases "parseRequest w request")
  case (Continue p)
  have "getPurviewAccessTokens e w request st = (r, st1, trace) \<Longrightarrow> st1 = st" for r st1 trace
    by (rule getPurviewAccessTokens_effect [THEN conjunct1])
  then have "pipelineAcross e w request p st st = pipeline e w request p st"
    by (cases "getPurviewAccessTokens e w request st")
      (auto simp: pipelineAcross_def pipeline_def andThen_def resolveScopeAcross_same
        split: flow.splits)
  with Continue show ?thesis
    by (simp add: postChatsAcross_def postChats_def andThen_def)
qed (simp_all add: postChatsAcross_def postChats_def andThen_def)




section \<open>Properties of \<^verbatim>\<open>replaceAll\<close>\<close>

lemma getSubstitution_plain:
  "CHR ''$'' \<notin> set r \<Longrightarrow> getSubstitution m p f r = r"
  by (induction m p f r rule: getSubstitution.induct) auto

lemma replaceAll_from_preceding:
  "CHR ''$'' \<notin> set r \<Longrightarrow> replaceAll_from s r p x = replaceAll_from s r p' x"
proof (induction s r p x arbitrary: p' rule: replaceAll_from.induct)
  case (1 s r p)
  show ?case by simp
next
  case (2 s r p c cs)
  show ?case
  proof (cases "s \<noteq> [] \<and> startsWith (c # cs) s")
    case True
    with "2.IH"(1) [OF True "2.prems", of "p' @ s"] "2.prems" show ?thesis
      by (simp add: getSubstitution_plain)
  next
    case False
    with "2.IH"(2) [OF False "2.prems", of "p' @ [c]"] show ?thesis
      by auto
  qed
qed

lemma replaceAll_Nil: "pat \<noteq> [] \<Longrightarrow> replaceAll [] pat r = []"
  by (simp add: replaceAll_def)

lemma replaceAll_match:
  assumes "pat \<noteq> []" and "CHR ''$'' \<notin> set r"
  shows "replaceAll (pat @ y) pat r = r @ replaceAll y pat r"
proof -
  from assms(1) obtain a pat' where pat: "pat = a # pat'" by (cases pat) auto
  have "startsWith (pat @ y) pat" by (simp add: startsWith_prefix)
  then have "replaceAll_from pat r [] (pat @ y) = r @ replaceAll_from pat r ([] @ pat) y"
    using assms by (simp add: pat getSubstitution_plain)
  also have "replaceAll_from pat r ([] @ pat) y = replaceAll_from pat r [] y"
    by (rule replaceAll_from_preceding [OF assms(2)])
  finally show ?thesis
    using assms(1) by (simp add: replaceAll_def)
qed

lemma replaceAll_skip:
  assumes "pat \<noteq> []" and "CHR ''$'' \<notin> set r" and "\<not> prefix pat (c # cs)"
  shows "replaceAll (c # cs) pat r = c # replaceAll cs pat r"
proof -
  have "replaceAll_from pat r [] (c # cs) = c # replaceAll_from pat r ([] @ [c]) cs"
    using assms(3) by (simp add: startsWith_prefix)
  also have "replaceAll_from pat r ([] @ [c]) cs = replaceAll_from pat r [] cs"
    by (rule replaceAll_from_preceding [OF assms(2)])
  finally show ?thesis
    using assms(1) by (simp add: replaceAll_def)
qed

lemma replaceAll_induct [consumes 1, case_names Nil Match Skip]:
  assumes "pat \<noteq> []" and "P []" and "\<And>y. P y \<Longrightarrow> P (pat @ y)"
    and "\<And>c cs. \<not> prefix pat (c # cs) \<Longrightarrow> P cs \<Longrightarrow> P (c # cs)"
  shows "P s"
proof (induction s rule: length_induct)
  case (1 s)
  show ?case
  proof (cases s)
    case Nil
    with assms(2) show ?thesis by simp
  next
    case (Cons c cs)
    show ?thesis
    proof (cases "prefix pat s")
      case True
      then obtain y where y: "s = pat @ y" by (auto simp: prefix_def)
      with assms(1) have "length y < length s" by simp
      with 1 have "P y" by blast
      with assms(3) y show ?thesis by simp
    next
      case False
      from 1 Cons have "P cs" by simp
      with assms(4) False Cons show ?thesis by simp
    qed
  qed
qed

section \<open>Citation tokens\<close>

lemma bareReference_Cons: "bareReference t = CHR ''['' # t @ [CHR '']'']"
  by (simp add: bareReference_def)

lemma bareReference_inject [simp]: "bareReference t = bareReference u \<longleftrightarrow> t = u"
  by (simp add: bareReference_def)

lemma formattedReference_bare:
  "formattedReference (filenameOf doc) (labelNameOf doc) = bareReference (labelledName doc)"
  by (simp add: formattedReference_def bareReference_def labelledName_def)

lemma first_bracket:
  "CHR '']'' \<notin> set g \<Longrightarrow> CHR '']'' \<notin> set t \<Longrightarrow>
   prefix (g @ CHR '']'' # y) (t @ CHR '']'' # x) \<Longrightarrow> g = t"
proof (induction g arbitrary: t)
  case Nil
  then show ?case by (cases t) auto
next
  case (Cons a g)
  then show ?case by (cases t) auto
qed

lemma bare_prefix_bare:
  assumes "bracketFree g" and "bracketFree t" and "prefix (bareReference g) (bareReference t @ x)"
  shows "g = t"
proof -
  from assms(3) have "prefix (g @ CHR '']'' # []) (t @ CHR '']'' # x)"
    by (simp add: bareReference_Cons)
  with assms(1,2) show ?thesis
    by (intro first_bracket [of g t "[]" x]) (simp_all add: bracketFree_def)
qed

lemma replaceAll_copy:
  assumes "CHR ''$'' \<notin> set r" and "CHR ''['' \<notin> set u"
  shows "replaceAll (u @ x) (bareReference g) r = u @ replaceAll x (bareReference g) r"
  using assms(2)
proof (induction u)
  case Nil
  show ?case by simp
next
  case (Cons c u)
  then have "\<not> prefix (bareReference g) (c # u @ x)"
    by (auto simp: bareReference_Cons)
  with Cons assms(1) show ?case
    by (simp add: replaceAll_skip bareReference_Cons)
qed

lemma replaceAll_token:
  assumes "bracketFree g" and "bracketFree t" and "CHR ''$'' \<notin> set r"
  shows "replaceAll (bareReference t @ x) (bareReference g) r =
         (if t = g then r else bareReference t) @ replaceAll x (bareReference g) r"
proof (cases "t = g")
  case True
  have "bareReference g \<noteq> []" by (simp add: bareReference_Cons)
  from replaceAll_match [OF this assms(3), of x] True show ?thesis
    by simp
next
  case False
  with bare_prefix_bare [OF assms(1,2)] have "\<not> prefix (bareReference g) (bareReference t @ x)"
    by auto
  then have "replaceAll (bareReference t @ x) (bareReference g) r =
      CHR ''['' # replaceAll ((t @ [CHR '']'']) @ x) (bareReference g) r"
    using assms(3) by (simp add: bareReference_Cons replaceAll_skip)
  also have "replaceAll ((t @ [CHR '']'']) @ x) (bareReference g) r =
      (t @ [CHR '']'']) @ replaceAll x (bareReference g) r"
    using assms(2,3) by (intro replaceAll_copy) (simp_all add: bracketFree_def)
  finally show ?thesis
    using False by (simp add: bareReference_Cons)
qed

lemma replaceAll_boundary:
  assumes "bracketFree g" and "CHR ''$'' \<notin> set r"
  shows "replaceAll (a @ CHR ''['' # x) (bareReference g) r =
         replaceAll a (bareReference g) r @ replaceAll (CHR ''['' # x) (bareReference g) r"
proof -
  have pat: "bareReference g \<noteq> []" by (simp add: bareReference_Cons)
  show ?thesis
  proof (induction a rule: replaceAll_induct [OF pat])
    case 1
    show ?case by (simp add: replaceAll_Nil [OF pat])
  next
    case (2 y)
    then show ?case
      using replaceAll_match [OF pat assms(2)] by simp
  next
    case (3 c cs)
    have "\<not> prefix (bareReference g) ((c # cs) @ CHR ''['' # x)"
    proof
      assume "prefix (bareReference g) ((c # cs) @ CHR ''['' # x)"
      then have "prefix (bareReference g) (c # cs)
          \<or> (\<exists>us. bareReference g = (c # cs) @ us \<and> prefix us (CHR ''['' # x))"
        by (simp only: prefix_append)
      with 3(1) obtain us where us: "bareReference g = (c # cs) @ us" and "prefix us (CHR ''['' # x)"
        by blast
      with 3(1) have "us \<noteq> []" by auto
      with \<open>prefix us (CHR ''['' # x)\<close> obtain us' where "us = CHR ''['' # us'"
        by (cases us) auto
      with us have "CHR ''['' \<in> set (g @ [CHR '']''])"
        by (auto simp: bareReference_Cons)
      with assms(1) show False by (simp add: bracketFree_def)
    qed
    with 3 assms(2) pat show ?case
      by (simp add: replaceAll_skip)
  qed
qed

lemma replaceAll_around_token:
  assumes "bracketFree g" and "bracketFree t" and "CHR ''$'' \<notin> set r"
  shows "replaceAll (a @ bareReference t @ b) (bareReference g) r =
         replaceAll a (bareReference g) r @ (if t = g then r else bareReference t)
         @ replaceAll b (bareReference g) r"
proof -
  have "replaceAll (a @ bareReference t @ b) (bareReference g) r =
      replaceAll a (bareReference g) r @ replaceAll (bareReference t @ b) (bareReference g) r"
    using replaceAll_boundary [OF assms(1,3), of a "t @ [CHR '']''] @ b"]
    by (simp add: bareReference_Cons)
  with replaceAll_token [OF assms] show ?thesis by simp
qed

lemma replaceAll_prefix_back:
  assumes "CHR ''$'' \<notin> set (bareReference u)" and "CHR ''['' \<notin> set w"
    and "prefix (w @ [CHR '']'']) (replaceAll cs (bareReference g) (bareReference u))"
  shows "prefix (w @ [CHR '']'']) cs"
  using assms(2,3)
proof (induction w arbitrary: cs)
  case Nil
  have pat: "bareReference g \<noteq> []" by (simp add: bareReference_Cons)
  show ?case
  proof (cases cs)
    case Nil
    with \<open>prefix ([] @ [CHR '']'']) (replaceAll cs (bareReference g) (bareReference u))\<close>
    show ?thesis by (simp add: replaceAll_Nil [OF pat])
  next
    case (Cons c cs')
    show ?thesis
    proof (cases "prefix (bareReference g) cs")
      case True
      then obtain y where "cs = bareReference g @ y" by (auto simp: prefix_def)
      with Nil.prems(2) replaceAll_match [OF pat assms(1), of y] show ?thesis
        by (simp add: bareReference_Cons)
    next
      case False
      with Nil.prems(2) Cons replaceAll_skip [OF pat assms(1), of c cs'] show ?thesis
        by simp
    qed
  qed
next
  case (Cons x w)
  have pat: "bareReference g \<noteq> []" by (simp add: bareReference_Cons)
  show ?case
  proof (cases cs)
    case Nil
    with Cons.prems(2) show ?thesis by (simp add: replaceAll_Nil [OF pat])
  next
    case (Cons c cs')
    show ?thesis
    proof (cases "prefix (bareReference g) cs")
      case True
      then obtain y where "cs = bareReference g @ y" by (auto simp: prefix_def)
      with Cons.prems replaceAll_match [OF pat assms(1), of y] show ?thesis
        by (simp add: bareReference_Cons)
    next
      case False
      with Cons.prems(2) Cons replaceAll_skip [OF pat assms(1), of c cs']
      have "c = x" and "prefix (w @ [CHR '']'']) (replaceAll cs' (bareReference g) (bareReference u))"
        by simp_all
      with Cons.IH [of cs'] Cons.prems(1) Cons show ?thesis
        by simp
    qed
  qed
qed

lemma bare_sublist_bare:
  assumes "bracketFree t" and "bracketFree u" and "sublist (bareReference t) (bareReference u)"
  shows "t = u"
proof -
  from assms(3) obtain ps ss where eq: "bareReference u = ps @ bareReference t @ ss"
    by (auto simp: sublist_def)
  have "ps = []"
  proof (cases ps)
    case (Cons p ps')
    with eq have "u @ [CHR '']''] = ps' @ bareReference t @ ss"
      by (simp add: bareReference_Cons)
    then have "CHR ''['' \<in> set (u @ [CHR '']''])"
      by (simp add: bareReference_Cons)
    with assms(2) show ?thesis by (simp add: bracketFree_def)
  qed simp
  with eq have "prefix (bareReference t) (bareReference u @ [])"
    by (simp add: prefix_def)
  from bare_prefix_bare [OF assms(1,2) this] show ?thesis .
qed

lemma bare_no_straddle:
  assumes "bracketFree t" and "bareReference t = x1 @ x2" and "x1 \<noteq> []" and "x2 \<noteq> []"
  shows "last x1 \<noteq> CHR '']''"
proof -
  from assms(4) obtain x2' z where x2: "x2 = x2' @ [z]"
    by (cases x2 rule: rev_cases) auto
  with assms(2) have "CHR ''['' # t = x1 @ x2'"
    by (simp add: bareReference_Cons flip: append_assoc)
  then have "set x1 \<subseteq> set (CHR ''['' # t)"
    by (metis set_append Un_upper1)
  with assms(3) have "last x1 \<in> set (CHR ''['' # t)"
    using last_in_set by blast
  with assms(1) show ?thesis
    by (auto simp: bracketFree_def)
qed

lemma replaceAll_occurrence:
  assumes g: "bracketFree g" and t: "bracketFree t" and u: "bracketFree u"
    and dollar: "CHR ''$'' \<notin> set (bareReference u)"
    and occurs: "sublist (bareReference t) (replaceAll s (bareReference g) (bareReference u))"
  shows "t = u \<or> (t \<noteq> g \<and> sublist (bareReference t) s)"
proof -
  have pat: "bareReference g \<noteq> []" by (simp add: bareReference_Cons)
  from occurs show ?thesis
  proof (induction s rule: replaceAll_induct [OF pat])
    case 1
    then have "sublist (bareReference t) []"
      by (simp add: replaceAll_Nil [OF pat])
    then show ?case by (simp add: bareReference_Cons)
  next
    case (2 y)
    from 2(2) have "sublist (bareReference t)
        (bareReference u @ replaceAll y (bareReference g) (bareReference u))"
      by (simp add: replaceAll_match [OF pat dollar])
    then consider (left) "sublist (bareReference t) (bareReference u)"
      | (right) "sublist (bareReference t) (replaceAll y (bareReference g) (bareReference u))"
      | (straddle) x1 x2 where "bareReference t = x1 @ x2" "suffix x1 (bareReference u)"
          "prefix x2 (replaceAll y (bareReference g) (bareReference u))" "x1 \<noteq> []" "x2 \<noteq> []"
      unfolding sublist_append
      by (metis append_Nil append_Nil2 prefix_imp_sublist suffix_imp_sublist)
    then show ?case
    proof cases
      case left
      from bare_sublist_bare [OF t u this] show ?thesis by simp
    next
      case right
      with 2(1) show ?thesis
        by (auto simp: sublist_append)
    next
      case straddle
      from straddle(2) obtain zs where "bareReference u = zs @ x1"
        by (auto simp: suffix_def)
      then have "last (bareReference u) = last x1"
        using straddle(4) by simp
      moreover have "last (bareReference u) = CHR '']''"
        by (simp add: bareReference_Cons)
      ultimately have "last x1 = CHR '']''"
        by simp
      with bare_no_straddle [OF t straddle(1,4,5)] show ?thesis by simp
    qed
  next
    case (3 c cs)
    from 3(3) have "sublist (bareReference t) (c # replaceAll cs (bareReference g) (bareReference u))"
      by (simp add: replaceAll_skip [OF pat dollar 3(1)])
    then consider (here) "prefix (bareReference t) (c # replaceAll cs (bareReference g) (bareReference u))"
      | (later) "sublist (bareReference t) (replaceAll cs (bareReference g) (bareReference u))"
      by (auto simp: sublist_Cons_right)
    then show ?case
    proof cases
      case here
      then have "prefix (CHR ''['' # t @ [CHR '']''])
          (c # replaceAll cs (bareReference g) (bareReference u))"
        by (simp only: bareReference_Cons [of t])
      then have c: "c = CHR ''[''"
        and "prefix (t @ [CHR '']'']) (replaceAll cs (bareReference g) (bareReference u))"
        by simp_all
      from replaceAll_prefix_back [OF dollar _ this(2)] t
      have "prefix (t @ [CHR '']'']) cs"
        by (simp add: bracketFree_def)
      with c have pre: "prefix (bareReference t) (c # cs)"
        by (simp add: bareReference_Cons)
      with 3(1) have "t \<noteq> g" by auto
      with pre show ?thesis
        by (auto simp: sublist_Cons_right)
    next
      case later
      with 3(2) show ?thesis
        by (auto simp: sublist_Cons_right)
    qed
  qed
qed

section \<open>The rewrite loop\<close>

lemma rewriteCitation_bare:
  "rewriteCitation doc s =
   replaceAll s (bareReference (filenameOf doc)) (bareReference (labelledName doc))"
  by (simp add: rewriteCitation_def formattedReference_bare)

lemma labelledName_plain:
  assumes "plainName (filenameOf doc)" and "plainName (labelNameOf doc)"
  shows "bracketFree (labelledName doc)" and "CHR ''$'' \<notin> set (bareReference (labelledName doc))"
  using assms by (auto simp: plainName_def bracketFree_def labelledName_def bareReference_def)

lemma rewriteCitation_occurrence:
  assumes "plainName (filenameOf doc)" and "plainName (labelNameOf doc)" and "bracketFree t"
    and "sublist (bareReference t) (rewriteCitation doc s)"
  shows "t = labelledName doc \<or> (t \<noteq> filenameOf doc \<and> sublist (bareReference t) s)"
proof -
  from assms(1) have "bracketFree (filenameOf doc)" by (simp add: plainName_def)
  from replaceAll_occurrence [OF this assms(3) labelledName_plain [OF assms(1,2)]] assms(4)
  show ?thesis by (simp add: rewriteCitation_bare)
qed

lemma rewriteCitations_occurrence:
  assumes "\<forall>doc \<in> set docs. plainName (filenameOf doc) \<and> plainName (labelNameOf doc)"
    and "\<forall>doc \<in> set docs. t \<noteq> labelledName doc" and "bracketFree t"
    and "sublist (bareReference t) (rewriteCitations docs s)"
  shows "sublist (bareReference t) s \<and> (\<forall>doc \<in> set docs. t \<noteq> filenameOf doc)"
  using assms(1,2,4)
proof (induction docs arbitrary: s)
  case Nil
  then show ?case by (simp add: rewriteCitations_def)
next
  case (Cons doc docs)
  from Cons.prems(3) have "sublist (bareReference t) (rewriteCitations docs (rewriteCitation doc s))"
    by (simp add: rewriteCitations_def)
  with Cons.IH [of "rewriteCitation doc s"] Cons.prems(1,2)
  have step: "sublist (bareReference t) (rewriteCitation doc s)"
    and rest: "\<forall>doc \<in> set docs. t \<noteq> filenameOf doc"
    by simp_all
  from Cons.prems(1) have "plainName (filenameOf doc)" "plainName (labelNameOf doc)"
    by simp_all
  from rewriteCitation_occurrence [OF this assms(3) step] Cons.prems(2) rest
  show ?case by simp
qed

lemma rewriteCitation_around:
  assumes "plainName (filenameOf doc)" and "plainName (labelNameOf doc)" and "bracketFree t"
  shows "rewriteCitation doc (a @ bareReference t @ b) =
         rewriteCitation doc a
         @ bareReference (if t = filenameOf doc then labelledName doc else t)
         @ rewriteCitation doc b"
proof -
  from assms(1) have "bracketFree (filenameOf doc)" by (simp add: plainName_def)
  from replaceAll_around_token [OF this assms(3) labelledName_plain(2) [OF assms(1,2)], of a b]
  show ?thesis by (simp add: rewriteCitation_bare)
qed

lemma rewriteCitations_around:
  assumes "\<forall>doc \<in> set docs. plainName (filenameOf doc) \<and> plainName (labelNameOf doc)"
    and "bracketFree t"
  shows "rewriteCitations docs (a @ bareReference t @ b) =
         rewriteCitations docs a
         @ bareReference (fold (\<lambda>doc t. if t = filenameOf doc then labelledName doc else t) docs t)
         @ rewriteCitations docs b"
  using assms
proof (induction docs arbitrary: a t b)
  case Nil
  show ?case by (simp add: rewriteCitations_def)
next
  case (Cons doc docs)
  from Cons.prems(1) have plain: "plainName (filenameOf doc)" "plainName (labelNameOf doc)"
    by simp_all
  let ?t = "if t = filenameOf doc then labelledName doc else t"
  from plain Cons.prems(2) have "bracketFree ?t"
    by (simp add: labelledName_plain)
  with Cons.IH [of ?t "rewriteCitation doc a" "rewriteCitation doc b"] Cons.prems(1)
  have "rewriteCitations docs (rewriteCitation doc a @ bareReference ?t @ rewriteCitation doc b) =
      rewriteCitations docs (rewriteCitation doc a)
      @ bareReference (fold (\<lambda>doc t. if t = filenameOf doc then labelledName doc else t) docs ?t)
      @ rewriteCitations docs (rewriteCitation doc b)"
    by simp
  with rewriteCitation_around [OF plain Cons.prems(2), of a b] show ?case
    by (simp add: rewriteCitations_def)
qed

lemma relabel_fixed:
  "\<forall>doc \<in> set docs. t \<noteq> filenameOf doc \<Longrightarrow>
   fold (\<lambda>doc t. if t = filenameOf doc then labelledName doc else t) docs t = t"
  by (induction docs) simp_all

lemma relabel_first:
  assumes "\<forall>doc \<in> set docs. \<forall>doc' \<in> set docs. filenameOf doc \<noteq> labelledName doc'"
    and "find (\<lambda>doc. filenameOf doc = f) docs = Some firstDoc"
  shows "fold (\<lambda>doc t. if t = filenameOf doc then labelledName doc else t) docs f = labelledName firstDoc"
  using assms
proof (induction docs)
  case Nil
  then show ?case by simp
next
  case (Cons doc docs)
  show ?case
  proof (cases "filenameOf doc = f")
    case True
    with Cons.prems(2) have "firstDoc = doc" by simp
    moreover from Cons.prems(1) have "\<forall>doc' \<in> set docs. labelledName doc \<noteq> filenameOf doc'"
      by (metis list.set_intros(1,2))
    ultimately show ?thesis
      using True by (simp add: relabel_fixed)
  next
    case False
    with Cons.prems(2) have "find (\<lambda>doc. filenameOf doc = f) docs = Some firstDoc" by simp
    moreover from Cons.prems(1)
    have "\<forall>doc \<in> set docs. \<forall>doc' \<in> set docs. filenameOf doc \<noteq> labelledName doc'" by simp
    ultimately show ?thesis
      using Cons.IH False by auto
  qed
qed

text \<open>
  Claim C7, as stated, asks that after the rewriting the bare form of a cited retrieved
  document no longer occurs, for every answer and every document. Here the label name of
  the only retrieved document is the bracketed name of its own file: the replacement text
  contains the bare form, which therefore still occurs in the processed answer.
\<close>

theorem citation_bare_form_counterexample:
  "rewriteCitations [selfCitingDocument] ''[doc1.pdf]'' = ''[doc1.pdf (Label: [doc1.pdf])]''
   \<and> includes_str (rewriteCitations [selfCitingDocument] ''[doc1.pdf]'')
        (bareReference (filenameOf selfCitingDocument))"
  by (simp add: rewriteCitations_def rewriteCitation_def replaceAll_def bareReference_def
      formattedReference_def filenameOf_def labelNameOf_def templateString_def orNullish_def
      orElse_def documentLabelNameOf_def selfCitingDocument_def)

text \<open>
  Claim C7, amended. Let the file names and the label names (\<^verbatim>\<open>Unknown\<close> for a missing
  or empty one) of the retrieved documents be plain, and let no file name be the text
  \<^verbatim>\<open>filename (Label: labelName)\<close> of a retrieved document. Then after the loop over all
  retrieved documents, whether the label filter kept them or not, the processed answer
  does not contain the bare form \<^verbatim>\<open>[filename]\<close> of any of them. And a token
  \<^verbatim>\<open>[filename]\<close> standing between two parts of the answer is rewritten in place to
  \<^verbatim>\<open>[filename (Label: labelName)]\<close>, with the label name of the first retrieved document
  of that file name, while the two parts are rewritten on their own.
\<close>

theorem citations_rewritten:
  assumes plain: "\<forall>doc \<in> set docs. plainName (filenameOf doc) \<and> plainName (labelNameOf doc)"
    and distinct: "\<forall>doc \<in> set docs. \<forall>doc' \<in> set docs. filenameOf doc \<noteq> labelledName doc'"
  shows "(\<forall>doc \<in> set docs.
            \<not> includes_str (rewriteCitations docs answer) (bareReference (filenameOf doc)))
     \<and> (find (\<lambda>doc. filenameOf doc = f) docs = Some firstDoc \<longrightarrow>
          rewriteCitations docs (a @ bareReference f @ b) =
            rewriteCitations docs a @ formattedReference f (labelNameOf firstDoc) @ rewriteCitations docs b)"
proof (intro conjI ballI impI)
  fix doc assume doc: "doc \<in> set docs"
  show "\<not> includes_str (rewriteCitations docs answer) (bareReference (filenameOf doc))"
  proof
    assume "includes_str (rewriteCitations docs answer) (bareReference (filenameOf doc))"
    then have occurs: "sublist (bareReference (filenameOf doc)) (rewriteCitations docs answer)"
      by (simp add: includes_str_sublist)
    from plain doc have "bracketFree (filenameOf doc)"
      by (simp add: plainName_def)
    moreover from distinct doc have "\<forall>doc' \<in> set docs. filenameOf doc \<noteq> labelledName doc'"
      by simp
    ultimately have "\<forall>doc' \<in> set docs. filenameOf doc \<noteq> filenameOf doc'"
      using rewriteCitations_occurrence [OF plain _ _ occurs] by simp
    with doc show False by blast
  qed
next
  assume first: "find (\<lambda>doc. filenameOf doc = f) docs = Some firstDoc"
  then have firstDoc: "firstDoc \<in> set docs" and f: "filenameOf firstDoc = f"
    by (auto simp: find_Some_iff)
  with plain have "bracketFree f"
    by (auto simp: plainName_def)
  from rewriteCitations_around [OF plain this, of a b] relabel_first [OF distinct first]
  show "rewriteCitations docs (a @ bareReference f @ b) =
      rewriteCitations docs a @ formattedReference f (labelNameOf firstDoc) @ rewriteCitations docs b"
    using f formattedReference_bare [of firstDoc] by simp
qed

theorem citations_rewritten_witness:
  "plainName (filenameOf exampleDocument) \<and> plainName (labelNameOf exampleDocument)
   \<and> filenameOf exampleDocument \<noteq> labelledName exampleDocument
   \<and> find (\<lambda>doc. filenameOf doc = ''doc1.pdf'') [exampleDocument] = Some exampleDocument
   \<and> \<not> includes_str (rewriteCitations [exampleDocument] ''See [doc1.pdf]'')
         (bareReference (filenameOf exampleDocument))
   \<and> rewriteCitations [exampleDocument] (''See '' @ bareReference ''doc1.pdf'' @ '' now'')
       = rewriteCitations [exampleDocument] ''See ''
         @ formattedReference ''doc1.pdf'' (labelNameOf exampleDocument)
         @ rewriteCitations [exampleDocument] '' now''"
proof -
  have names: "plainName (filenameOf exampleDocument)" "plainName (labelNameOf exampleDocument)"
    "filenameOf exampleDocument \<noteq> labelledName exampleDocument"
    by (simp_all add: plainName_def bracketFree_def filenameOf_def labelNameOf_def labelledName_def
        templateString_def orNullish_def orElse_def documentLabelNameOf_def exampleDocument_def)
  have first: "find (\<lambda>doc. filenameOf doc = ''doc1.pdf'') [exampleDocument] = Some exampleDocument"
    by (simp add: filenameOf_def templateString_def orNullish_def exampleDocument_def)
  from names have plain: "\<forall>doc \<in> set [exampleDocument].
      plainName (filenameOf doc) \<and> plainName (labelNameOf doc)"
    and distinct: "\<forall>doc \<in> set [exampleDocument]. \<forall>doc' \<in> set [exampleDocument].
      filenameOf doc \<noteq> labelledName doc'"
    by simp_all
  from citations_rewritten [OF plain distinct, where answer = "''See [doc1.pdf]''"
      and f = "''doc1.pdf''" and firstDoc = exampleDocument and a = "''See ''" and b = "'' now''"]
    first
  have "\<not> includes_str (rewriteCitations [exampleDocument] ''See [doc1.pdf]'')
         (bareReference (filenameOf exampleDocument))"
    and "rewriteCitations [exampleDocument] (''See '' @ bareReference ''doc1.pdf'' @ '' now'')
       = rewriteCitations [exampleDocument] ''See ''
         @ formattedReference ''doc1.pdf'' (labelNameOf exampleDocument)
         @ rewriteCitations [exampleDocument] '' now''"
    by simp_all
  with names first show ?thesis by simp
qed

end
